theory Spec2Isabelle
  imports Complex_Main "HOL-Library.Multiset"
begin

section \<open>One Lloyd iteration of naive k-means (naive_kmeans_impl.hpp)\<close>

text \<open>
  The embedding follows \<^verbatim>\<open>NaiveKMeans::Iterate\<close> statement by statement.
  Conventions:
  \<^item> \<^verbatim>\<open>double\<close> is modelled twice. The first model takes \<open>real\<close>: arithmetic is
    exact, and the only trace of the finite range of doubles is the constant \<open>DBL_MAX\<close>,
    the initial value of \<^verbatim>\<open>minDistance\<close>. It says what the code computes when no
    operation rounds or overflows. The second model, whose functions end in \<open>_in\<close>,
    repeats the code over an arbitrary type with arbitrary operations; what is proved of
    it holds of doubles with their rounding, their infinities and their NaN.
  \<^item> \<^verbatim>\<open>size_t\<close> is modelled by \<open>nat\<close>. Every index computed by the partitioner is at
    most the number of points, so none of them wraps; the diagnostic counter is reduced
    modulo \<open>2 ^ 64\<close> explicitly.
  \<^item> A dense column-major matrix is its row count and the list of its columns.
  \<^item> Integer division by zero, an out-of-range column access and an Armadillo size
    mismatch are error values.
  \<^item> The parallel region requests \<open>effectiveThreads\<close> threads, and the runtime grants
    a team of at most that many. Thread bodies only read shared data and write private
    accumulators, so all that a run can observe of the team is which threads it has and
    the order in which they enter the critical section: the parameter \<open>order\<close> lists
    the threads of the team granted, in that order.
\<close>

subsection \<open>Data model\<close>

datatype error = DivisionByZero | IndexOutOfBounds | SizeMismatch

type_synonym vec = "real list"

record mat =
  n_rows :: nat
  columns :: "vec list"

definition n_cols :: "mat \<Rightarrow> nat" where
  "n_cols m = length (columns m)"

definition col :: "mat \<Rightarrow> nat \<Rightarrow> vec" where
  "col m j = columns m ! j"

text \<open>Armadillo matrices are rectangular: every column has \<open>n_rows\<close> entries.\<close>

definition wf_mat :: "mat \<Rightarrow> bool" where
  "wf_mat m = list_all (\<lambda>c. length c = n_rows m) (columns m)"

text \<open>\<^verbatim>\<open>M.zeros(d, k)\<close> and \<^verbatim>\<open>arma::mat(d, k, arma::fill::zeros)\<close>.\<close>

definition zeros :: "nat \<Rightarrow> nat \<Rightarrow> mat" where
  "zeros d k = \<lparr>n_rows = d, columns = replicate k (replicate d 0)\<rparr>"

text \<open>The kernel object: the dataset it is bound to and its diagnostic counter.\<close>

record naive_kmeans =
  dataset :: mat
  distanceCalculations :: nat

text \<open>What one call leaves behind: the two output buffers, the returned scalar and the
  updated kernel object.\<close>

record iterate_result =
  newCentroids :: mat
  counts :: "nat list"
  cNorm :: real
  object_after :: naive_kmeans

type_synonym accum = "mat \<times> nat list"

subsection \<open>Vector primitives\<close>

text \<open>The arithmetic of \<^verbatim>\<open>arma::dot\<close>.\<close>

definition dotp :: "vec \<Rightarrow> vec \<Rightarrow> real" where
  "dotp a b = sum_list (map2 (*) a b)"

text \<open>\<^verbatim>\<open>arma::dot(a, b)\<close> with its size check. Where the source passes the same vector
  twice the check cannot fail and \<open>dotp\<close> is used directly.\<close>

definition dot :: "vec \<Rightarrow> vec \<Rightarrow> error + real" where
  "dot a b = (if length a = length b then Inr (dotp a b) else Inl SizeMismatch)"

text \<open>\<^verbatim>\<open>a - b\<close> on column views, with its size check.\<close>

definition vsub :: "vec \<Rightarrow> vec \<Rightarrow> error + vec" where
  "vsub a b = (if length a = length b then Inr (map2 (-) a b) else Inl SizeMismatch)"

text \<open>\<^verbatim>\<open>arma::norm(v, 2)\<close>.\<close>

definition norm2 :: "vec \<Rightarrow> real" where
  "norm2 v = sqrt (sum_list (map (\<lambda>x. x * x) v))"

text \<open>\<^verbatim>\<open>std::numeric_limits<double>::max()\<close>.\<close>

definition DBL_MAX :: real where
  "DBL_MAX = (2 - 1 / 2 ^ 52) * 2 ^ 1023"

text \<open>A counted loop whose body may fail; the first failure ends the loop.\<close>

fun for_loop :: "nat list \<Rightarrow> ('s \<Rightarrow> nat \<Rightarrow> error + 's) \<Rightarrow> 's \<Rightarrow> error + 's" where
  "for_loop [] body s = Inr s"
| "for_loop (i # is) body s =
     (case body s i of Inl e \<Rightarrow> Inl e | Inr s' \<Rightarrow> for_loop is body s')"

subsection \<open>Norm cache (lines 45-51)\<close>

definition centroidNorms :: "mat \<Rightarrow> vec" where
  "centroidNorms centroids =
     map (\<lambda>j. dotp (col centroids j) (col centroids j)) [0..<n_cols centroids]"

subsection \<open>Work partitioner (lines 53-57, 64-66)\<close>

definition numThreads :: "int \<Rightarrow> nat" where
  "numThreads omp_max_threads = nat (max 1 omp_max_threads)"

definition minVectorsPerThread :: nat where
  "minVectorsPerThread = 100"

definition effectiveThreads :: "int \<Rightarrow> nat \<Rightarrow> nat" where
  "effectiveThreads omp_max_threads points =
     min (numThreads omp_max_threads) (points div minVectorsPerThread)"

definition nominalSegmentSize :: "int \<Rightarrow> nat \<Rightarrow> error + nat" where
  "nominalSegmentSize omp_max_threads points =
     (if effectiveThreads omp_max_threads points = 0 then Inl DivisionByZero
      else Inr (points div effectiveThreads omp_max_threads points))"

definition segmentStart :: "nat \<Rightarrow> nat \<Rightarrow> nat" where
  "segmentStart seg threadId = threadId * seg"

definition segmentEnd :: "nat \<Rightarrow> nat \<Rightarrow> nat \<Rightarrow> nat \<Rightarrow> nat" where
  "segmentEnd threads points seg threadId =
     (if threadId = threads - 1 then points else (threadId + 1) * seg)"

subsection \<open>Nearest centroid of one point (lines 70-91)\<close>

text \<open>One pass of the loop over \<open>j\<close>; the state is \<open>(minDistance, closestCluster)\<close>.\<close>

definition closer :: "mat \<Rightarrow> vec \<Rightarrow> vec \<Rightarrow> real \<Rightarrow> real \<times> nat \<Rightarrow> nat \<Rightarrow> error + real \<times> nat" where
  "closer centroids norms dataPoint dataNorm s j =
     (case dot dataPoint (col centroids j) of
        Inl e \<Rightarrow> Inl e
      | Inr dotProduct \<Rightarrow>
          (let dist = dataNorm + norms ! j - 2 * dotProduct
           in if dist < fst s then Inr (dist, j) else Inr s))"

definition find_closest :: "mat \<Rightarrow> vec \<Rightarrow> vec \<Rightarrow> error + real \<times> nat" where
  "find_closest centroids norms dataPoint =
     for_loop [0..<n_cols centroids]
       (closer centroids norms dataPoint (dotp dataPoint dataPoint))
       (DBL_MAX, n_cols centroids)"

subsection \<open>Thread-local accumulation (lines 61-96)\<close>

text \<open>\<^verbatim>\<open>localCentroids.col(j) += v\<close>.\<close>

definition add_to_col :: "mat \<Rightarrow> nat \<Rightarrow> vec \<Rightarrow> mat" where
  "add_to_col m j v = m\<lparr>columns := (columns m)[j := map2 (+) (col m j) v]\<rparr>"

text \<open>The body of the loop over the points of a segment. The column access with
  \<open>closestCluster\<close> is bounds-checked.\<close>

definition assign_point :: "mat \<Rightarrow> mat \<Rightarrow> vec \<Rightarrow> accum \<Rightarrow> nat \<Rightarrow> error + accum" where
  "assign_point data centroids norms acc i =
     (let dataPoint = col data i
      in case find_closest centroids norms dataPoint of
           Inl e \<Rightarrow> Inl e
         | Inr (minDistance, closestCluster) \<Rightarrow>
             if closestCluster < n_cols (fst acc)
             then Inr (add_to_col (fst acc) closestCluster dataPoint,
                       (snd acc)[closestCluster := snd acc ! closestCluster + 1])
             else Inl IndexOutOfBounds)"

definition thread_local :: "mat \<Rightarrow> mat \<Rightarrow> vec \<Rightarrow> nat \<Rightarrow> nat \<Rightarrow> nat \<Rightarrow> error + accum" where
  "thread_local data centroids norms threads seg threadId =
     for_loop [segmentStart seg threadId..<segmentEnd threads (n_cols data) seg threadId]
       (assign_point data centroids norms)
       (zeros (n_rows data) (n_cols centroids), replicate (n_cols centroids) 0)"

subsection \<open>Merge under the critical section (lines 98-103)\<close>

definition mat_add :: "mat \<Rightarrow> mat \<Rightarrow> mat" where
  "mat_add a b = a\<lparr>columns := map2 (map2 (+)) (columns a) (columns b)\<rparr>"

definition combine :: "accum \<Rightarrow> accum \<Rightarrow> accum" where
  "combine shared loc = (mat_add (fst shared) (fst loc), map2 (+) (snd shared) (snd loc))"

text \<open>Thread \<open>t\<close> computes its private accumulators and adds them to the shared buffers
  when its turn in \<open>order\<close> comes.\<close>

definition parallel_region :: "mat \<Rightarrow> mat \<Rightarrow> vec \<Rightarrow> nat \<Rightarrow> nat \<Rightarrow> nat list \<Rightarrow> error + accum" where
  "parallel_region data centroids norms threads seg order =
     for_loop order
       (\<lambda>shared t. case thread_local data centroids norms threads seg t of
                      Inl e \<Rightarrow> Inl e
                    | Inr loc \<Rightarrow> Inr (combine shared loc))
       (zeros (n_rows data) (n_cols centroids), replicate (n_cols centroids) 0)"

text \<open>The team granted is the team requested when \<open>order\<close> names each of the
  \<open>threads\<close> threads once. A run that is granted fewer threads has a shorter \<open>order\<close>,
  and the segments of the threads it lacks are visited by nobody: lines 64 to 66 compute
  the segments from the count requested.\<close>

definition valid_order :: "nat \<Rightarrow> nat list \<Rightarrow> bool" where
  "valid_order threads order = (sort order = [0..<threads])"

subsection \<open>Normalizer (lines 106-113)\<close>

definition normalize_col :: "nat list \<Rightarrow> mat \<Rightarrow> nat \<Rightarrow> mat" where
  "normalize_col cnts m j =
     (if cnts ! j > 0
      then m\<lparr>columns := (columns m)[j := map (\<lambda>v. v / real (cnts ! j)) (col m j)]\<rparr>
      else m)"

definition normalize :: "nat \<Rightarrow> nat list \<Rightarrow> mat \<Rightarrow> mat" where
  "normalize clusters cnts m = foldl (normalize_col cnts) m [0..<clusters]"

subsection \<open>Shift evaluator (lines 115-121)\<close>

definition distortion :: "mat \<Rightarrow> mat \<Rightarrow> error + real" where
  "distortion centroids newC =
     for_loop [0..<n_cols centroids]
       (\<lambda>acc j. case vsub (col centroids j) (col newC j) of
                   Inl e \<Rightarrow> Inl e
                 | Inr d \<Rightarrow> Inr (acc + norm2 d))
       0"

subsection \<open>Iterate (lines 34-126)\<close>

definition Iterate :: "int \<Rightarrow> nat list \<Rightarrow> naive_kmeans \<Rightarrow> mat \<Rightarrow> error + iterate_result" where
  "Iterate omp_max_threads order km centroids =
     (let points = n_cols (dataset km);
          clusters = n_cols centroids;
          norms = centroidNorms centroids;
          threads = effectiveThreads omp_max_threads points
      in case nominalSegmentSize omp_max_threads points of
           Inl e \<Rightarrow> Inl e
         | Inr seg \<Rightarrow>
             (case parallel_region (dataset km) centroids norms threads seg order of
                Inl e \<Rightarrow> Inl e
              | Inr (summed, cnts) \<Rightarrow>
                  (let newC = normalize clusters cnts summed
                   in case distortion centroids newC of
                        Inl e \<Rightarrow> Inl e
                      | Inr shift \<Rightarrow>
                          Inr \<lparr>newCentroids = newC, counts = cnts, cNorm = shift,
                               object_after = km\<lparr>distanceCalculations :=
                                 (distanceCalculations km + clusters * points) mod 2 ^ 64\<rparr>\<rparr>)))"

subsection \<open>Notions used to state the properties\<close>

text \<open>The distance of line 84 with the cached norm written out, and the squared Euclidean
  distance it stands for.\<close>

definition decomposed :: "mat \<Rightarrow> vec \<Rightarrow> nat \<Rightarrow> real" where
  "decomposed centroids x j =
     dotp x x + dotp (col centroids j) (col centroids j) - 2 * dotp x (col centroids j)"

definition sq_euclid :: "vec \<Rightarrow> vec \<Rightarrow> real" where
  "sq_euclid a b = sum_list (map2 (\<lambda>x y. (x - y) * (x - y)) a b)"

text \<open>The invariant of the loop over \<open>j\<close> after \<open>k\<close> passes: either no distance so
  far was below \<open>DBL_MAX\<close> and the state is still the initial one, or the state holds
  the least index among the minimal distances seen.\<close>

definition tracked :: "(nat \<Rightarrow> real) \<Rightarrow> nat \<Rightarrow> nat \<Rightarrow> real \<times> nat \<Rightarrow> bool" where
  "tracked d K k s =
     ((snd s = K \<and> fst s = DBL_MAX \<and> (\<forall>j<k. DBL_MAX \<le> d j)) \<or>
      (snd s < k \<and> fst s = d (snd s) \<and> d (snd s) < DBL_MAX \<and>
       (\<forall>j<k. d (snd s) \<le> d j) \<and> (\<forall>j<snd s. d (snd s) < d j)))"

text \<open>Accumulators given entry by entry: \<open>F j r\<close> is row \<open>r\<close> of column \<open>j\<close> of the
  sums, \<open>G j\<close> the count of cluster \<open>j\<close>.\<close>

definition tab :: "nat \<Rightarrow> nat \<Rightarrow> (nat \<Rightarrow> nat \<Rightarrow> real) \<Rightarrow> (nat \<Rightarrow> nat) \<Rightarrow> accum" where
  "tab d K F G = (\<lparr>n_rows = d, columns = map (\<lambda>j. map (F j) [0..<d]) [0..<K]\<rparr>, map G [0..<K])"

text \<open>The value of \<open>closestCluster\<close> when the loop over \<open>j\<close> ends.\<close>

definition nearest :: "mat \<Rightarrow> vec \<Rightarrow> nat" where
  "nearest centroids x =
     (case find_closest centroids (centroidNorms centroids) x of
        Inl e \<Rightarrow> n_cols centroids
      | Inr s \<Rightarrow> snd s)"

text \<open>The indices thread \<open>threadId\<close> visits.\<close>

definition segment :: "nat \<Rightarrow> nat \<Rightarrow> nat \<Rightarrow> nat \<Rightarrow> nat list" where
  "segment threads points seg threadId =
     [segmentStart seg threadId..<segmentEnd threads points seg threadId]"

text \<open>The points whose nearest centroid is \<open>j\<close>, the sum of their columns, and the
  column the normalizer leaves for them: the mean, or the zero sum of an empty cluster.\<close>

definition members :: "mat \<Rightarrow> mat \<Rightarrow> nat \<Rightarrow> nat list" where
  "members ds centroids j = filter (\<lambda>i. nearest centroids (col ds i) = j) [0..<n_cols ds]"

definition cluster_sum :: "mat \<Rightarrow> mat \<Rightarrow> nat \<Rightarrow> vec" where
  "cluster_sum ds centroids j =
     map (\<lambda>r. \<Sum>i\<leftarrow>members ds centroids j. col ds i ! r) [0..<n_rows ds]"

definition cluster_mean :: "mat \<Rightarrow> mat \<Rightarrow> nat \<Rightarrow> vec" where
  "cluster_mean ds centroids j =
     (if 0 < length (members ds centroids j)
      then map (\<lambda>v. v / real (length (members ds centroids j))) (cluster_sum ds centroids j)
      else cluster_sum ds centroids j)"

text \<open>The sum over the clusters of the Euclidean norm of the centroid displacement.\<close>

definition total_shift :: "mat \<Rightarrow> mat \<Rightarrow> real" where
  "total_shift old new =
     (\<Sum>j\<leftarrow>[0..<n_cols old]. norm2 (map2 (-) (col old j) (col new j)))"

definition new_centroids :: "mat \<Rightarrow> mat \<Rightarrow> mat" where
  "new_centroids ds centroids =
     \<lparr>n_rows = n_rows ds, columns = map (cluster_mean ds centroids) [0..<n_cols centroids]\<rparr>"

definition cluster_sizes :: "mat \<Rightarrow> mat \<Rightarrow> nat list" where
  "cluster_sizes ds centroids = map (\<lambda>j. length (members ds centroids j)) [0..<n_cols centroids]"

text \<open>Every point of the dataset found a centroid.\<close>

definition all_assigned :: "mat \<Rightarrow> mat \<Rightarrow> bool" where
  "all_assigned ds centroids =
     list_all (\<lambda>x. nearest centroids x < n_cols centroids) (columns ds)"

subsection \<open>Concrete inputs\<close>

text \<open>The scenario of four points and two centroids; the same dataset repeated \<open>k\<close>
  times; a point whose squared norm exceeds \<open>DBL_MAX\<close>, with one and with two
  centroids at the origin; a hundred copies of one point with a centroid on it and an
  empty cluster at the origin.\<close>

definition scenario_data :: mat where
  "scenario_data = \<lparr>n_rows = 2, columns = [[0, 0], [0, 1], [5, 5], [5, 6]]\<rparr>"

definition scenario_centroids :: mat where
  "scenario_centroids = \<lparr>n_rows = 2, columns = [[0, 0], [5, 5]]\<rparr>"

definition tiled :: "nat \<Rightarrow> mat" where
  "tiled k = \<lparr>n_rows = 2, columns = concat (replicate k (columns scenario_data))\<rparr>"

definition tiled_kernel :: "nat \<Rightarrow> naive_kmeans" where
  "tiled_kernel k = \<lparr>dataset = tiled k, distanceCalculations = 0\<rparr>"

definition far_point :: vec where
  "far_point = [2 ^ 512]"

definition far_data :: mat where
  "far_data = \<lparr>n_rows = 1, columns = replicate 100 far_point\<rparr>"

definition origin1 :: mat where
  "origin1 = \<lparr>n_rows = 1, columns = [[0]]\<rparr>"

definition origin2 :: mat where
  "origin2 = \<lparr>n_rows = 1, columns = [[0], [0]]\<rparr>"






subsection \<open>The same code over any machine arithmetic\<close>

text \<open>
  What a call decides (which branch the comparison of line 86 takes, which index a point
  is given, whether the call returns) depends on the arithmetic of \<^verbatim>\<open>double\<close>:
  rounding, overflow to infinity, and \<^verbatim>\<open>NaN\<close>, which compares false with everything.
  The definitions of this part repeat the code with \<^verbatim>\<open>double\<close> as an arbitrary type
  \<open>'a\<close> and its operations as the components of a record. Nothing is assumed of the
  operations except what a theorem states; the comparison of IEEE doubles is irreflexive
  and transitive, with and without \<^verbatim>\<open>NaN\<close>.
\<close>

record 'a arith =
  d_plus :: "'a \<Rightarrow> 'a \<Rightarrow> 'a"
  d_minus :: "'a \<Rightarrow> 'a \<Rightarrow> 'a"
  d_times :: "'a \<Rightarrow> 'a \<Rightarrow> 'a"
  d_div :: "'a \<Rightarrow> nat \<Rightarrow> 'a"
  d_less :: "'a \<Rightarrow> 'a \<Rightarrow> bool"
  d_zero :: 'a
  d_two :: 'a
  d_max :: 'a
  d_dot :: "'a list \<Rightarrow> 'a list \<Rightarrow> 'a"
  d_norm :: "'a list \<Rightarrow> 'a"

text \<open>The components are \<^verbatim>\<open>+\<close>, \<^verbatim>\<open>-\<close>, \<^verbatim>\<open>*\<close>, the division of a double by a
  count, \<^verbatim>\<open><\<close>, the constants \<^verbatim>\<open>0.0\<close>, \<^verbatim>\<open>2\<close> and
  \<^verbatim>\<open>std::numeric_limits<double>::max()\<close>, and \<^verbatim>\<open>arma::dot\<close> and \<^verbatim>\<open>arma::norm(v, 2)\<close>
  on vectors that passed the size check.\<close>

record 'a dmat =
  d_rows :: nat
  d_columns :: "'a list list"

definition d_n_cols :: "'a dmat \<Rightarrow> nat" where
  "d_n_cols m = length (d_columns m)"

definition d_col :: "'a dmat \<Rightarrow> nat \<Rightarrow> 'a list" where
  "d_col m j = d_columns m ! j"

definition d_wf :: "'a dmat \<Rightarrow> bool" where
  "d_wf m = list_all (\<lambda>c. length c = d_rows m) (d_columns m)"

definition zeros_in :: "'a arith \<Rightarrow> nat \<Rightarrow> nat \<Rightarrow> 'a dmat" where
  "zeros_in A d k = \<lparr>d_rows = d, d_columns = replicate k (replicate d (d_zero A))\<rparr>"

record 'a d_kmeans =
  d_dataset :: "'a dmat"
  d_distanceCalculations :: nat

record 'a d_result =
  d_newCentroids :: "'a dmat"
  d_counts :: "nat list"
  d_cNorm :: 'a
  d_object_after :: "'a d_kmeans"

definition dot_in :: "'a arith \<Rightarrow> 'a list \<Rightarrow> 'a list \<Rightarrow> error + 'a" where
  "dot_in A a b = (if length a = length b then Inr (d_dot A a b) else Inl SizeMismatch)"

definition vsub_in :: "'a arith \<Rightarrow> 'a list \<Rightarrow> 'a list \<Rightarrow> error + 'a list" where
  "vsub_in A a b =
     (if length a = length b then Inr (map2 (d_minus A) a b) else Inl SizeMismatch)"

definition centroidNorms_in :: "'a arith \<Rightarrow> 'a dmat \<Rightarrow> 'a list" where
  "centroidNorms_in A centroids =
     map (\<lambda>j. d_dot A (d_col centroids j) (d_col centroids j)) [0..<d_n_cols centroids]"

definition closer_in ::
  "'a arith \<Rightarrow> 'a dmat \<Rightarrow> 'a list \<Rightarrow> 'a list \<Rightarrow> 'a \<Rightarrow> 'a \<times> nat \<Rightarrow> nat \<Rightarrow> error + 'a \<times> nat" where
  "closer_in A centroids norms dataPoint dataNorm s j =
     (case dot_in A dataPoint (d_col centroids j) of
        Inl e \<Rightarrow> Inl e
      | Inr dotProduct \<Rightarrow>
          (let dist = d_minus A (d_plus A dataNorm (norms ! j)) (d_times A (d_two A) dotProduct)
           in if d_less A dist (fst s) then Inr (dist, j) else Inr s))"

definition find_closest_in :: "'a arith \<Rightarrow> 'a dmat \<Rightarrow> 'a list \<Rightarrow> 'a list \<Rightarrow> error + 'a \<times> nat" where
  "find_closest_in A centroids norms dataPoint =
     for_loop [0..<d_n_cols centroids]
       (closer_in A centroids norms dataPoint (d_dot A dataPoint dataPoint))
       (d_max A, d_n_cols centroids)"

definition add_to_col_in :: "'a arith \<Rightarrow> 'a dmat \<Rightarrow> nat \<Rightarrow> 'a list \<Rightarrow> 'a dmat" where
  "add_to_col_in A m j v = m\<lparr>d_columns := (d_columns m)[j := map2 (d_plus A) (d_col m j) v]\<rparr>"

definition assign_point_in ::
  "'a arith \<Rightarrow> 'a dmat \<Rightarrow> 'a dmat \<Rightarrow> 'a list \<Rightarrow> 'a dmat \<times> nat list \<Rightarrow> nat
     \<Rightarrow> error + 'a dmat \<times> nat list" where
  "assign_point_in A data centroids norms acc i =
     (let dataPoint = d_col data i
      in case find_closest_in A centroids norms dataPoint of
           Inl e \<Rightarrow> Inl e
         | Inr (minDistance, closestCluster) \<Rightarrow>
             if closestCluster < d_n_cols (fst acc)
             then Inr (add_to_col_in A (fst acc) closestCluster dataPoint,
                       (snd acc)[closestCluster := snd acc ! closestCluster + 1])
             else Inl IndexOutOfBounds)"

definition thread_local_in ::
  "'a arith \<Rightarrow> 'a dmat \<Rightarrow> 'a dmat \<Rightarrow> 'a list \<Rightarrow> nat \<Rightarrow> nat \<Rightarrow> nat
     \<Rightarrow> error + 'a dmat \<times> nat list" where
  "thread_local_in A data centroids norms threads seg threadId =
     for_loop [segmentStart seg threadId..<segmentEnd threads (d_n_cols data) seg threadId]
       (assign_point_in A data centroids norms)
       (zeros_in A (d_rows data) (d_n_cols centroids), replicate (d_n_cols centroids) 0)"

definition mat_add_in :: "'a arith \<Rightarrow> 'a dmat \<Rightarrow> 'a dmat \<Rightarrow> 'a dmat" where
  "mat_add_in A a b = a\<lparr>d_columns := map2 (map2 (d_plus A)) (d_columns a) (d_columns b)\<rparr>"

definition combine_in ::
  "'a arith \<Rightarrow> 'a dmat \<times> nat list \<Rightarrow> 'a dmat \<times> nat list \<Rightarrow> 'a dmat \<times> nat list" where
  "combine_in A shared loc =
     (mat_add_in A (fst shared) (fst loc), map2 (+) (snd shared) (snd loc))"

text \<open>The threads named in \<open>order\<close> are the team the runtime granted, in the order in
  which they enter the critical section. The segments are computed from the requested
  count \<open>threads\<close>, as lines 64 to 66 do; a thread that was not granted visits nothing.\<close>

definition parallel_region_in ::
  "'a arith \<Rightarrow> 'a dmat \<Rightarrow> 'a dmat \<Rightarrow> 'a list \<Rightarrow> nat \<Rightarrow> nat \<Rightarrow> nat list
     \<Rightarrow> error + 'a dmat \<times> nat list" where
  "parallel_region_in A data centroids norms threads seg order =
     for_loop order
       (\<lambda>shared t. case thread_local_in A data centroids norms threads seg t of
                      Inl e \<Rightarrow> Inl e
                    | Inr loc \<Rightarrow> Inr (combine_in A shared loc))
       (zeros_in A (d_rows data) (d_n_cols centroids), replicate (d_n_cols centroids) 0)"

definition normalize_col_in :: "'a arith \<Rightarrow> nat list \<Rightarrow> 'a dmat \<Rightarrow> nat \<Rightarrow> 'a dmat" where
  "normalize_col_in A cnts m j =
     (if cnts ! j > 0
      then m\<lparr>d_columns := (d_columns m)[j := map (\<lambda>v. d_div A v (cnts ! j)) (d_col m j)]\<rparr>
      else m)"

definition normalize_in :: "'a arith \<Rightarrow> nat \<Rightarrow> nat list \<Rightarrow> 'a dmat \<Rightarrow> 'a dmat" where
  "normalize_in A clusters cnts m = foldl (normalize_col_in A cnts) m [0..<clusters]"

definition distortion_in :: "'a arith \<Rightarrow> 'a dmat \<Rightarrow> 'a dmat \<Rightarrow> error + 'a" where
  "distortion_in A centroids newC =
     for_loop [0..<d_n_cols centroids]
       (\<lambda>acc j. case vsub_in A (d_col centroids j) (d_col newC j) of
                   Inl e \<Rightarrow> Inl e
                 | Inr d \<Rightarrow> Inr (d_plus A acc (d_norm A d)))
       (d_zero A)"

definition Iterate_in ::
  "'a arith \<Rightarrow> int \<Rightarrow> nat list \<Rightarrow> 'a d_kmeans \<Rightarrow> 'a dmat \<Rightarrow> error + 'a d_result" where
  "Iterate_in A omp_max_threads order km centroids =
     (let points = d_n_cols (d_dataset km);
          clusters = d_n_cols centroids;
          norms = centroidNorms_in A centroids;
          threads = effectiveThreads omp_max_threads points
      in case nominalSegmentSize omp_max_threads points of
           Inl e \<Rightarrow> Inl e
         | Inr seg \<Rightarrow>
             (case parallel_region_in A (d_dataset km) centroids norms threads seg order of
                Inl e \<Rightarrow> Inl e
              | Inr (summed, cnts) \<Rightarrow>
                  (let newC = normalize_in A clusters cnts summed
                   in case distortion_in A centroids newC of
                        Inl e \<Rightarrow> Inl e
                      | Inr shift \<Rightarrow>
                          Inr \<lparr>d_newCentroids = newC, d_counts = cnts, d_cNorm = shift,
                               d_object_after = km\<lparr>d_distanceCalculations :=
                                 (d_distanceCalculations km + clusters * points) mod 2 ^ 64\<rparr>\<rparr>)))"

text \<open>The value line 84 computes for centroid \<open>j\<close>, the index the search ends with, and the
  points that end with index \<open>j\<close>.\<close>

definition computed :: "'a arith \<Rightarrow> 'a dmat \<Rightarrow> 'a list \<Rightarrow> nat \<Rightarrow> 'a" where
  "computed A centroids x j =
     d_minus A (d_plus A (d_dot A x x) (d_dot A (d_col centroids j) (d_col centroids j)))
       (d_times A (d_two A) (d_dot A x (d_col centroids j)))"

definition nearest_in :: "'a arith \<Rightarrow> 'a dmat \<Rightarrow> 'a list \<Rightarrow> nat" where
  "nearest_in A centroids x =
     (case find_closest_in A centroids (centroidNorms_in A centroids) x of
        Inl e \<Rightarrow> d_n_cols centroids
      | Inr s \<Rightarrow> snd s)"

definition members_in :: "'a arith \<Rightarrow> 'a dmat \<Rightarrow> 'a dmat \<Rightarrow> nat \<Rightarrow> nat list" where
  "members_in A ds centroids j =
     filter (\<lambda>i. nearest_in A centroids (d_col ds i) = j) [0..<d_n_cols ds]"

text \<open>Exact arithmetic as one instance.\<close>

definition real_arith :: "real arith" where
  "real_arith = \<lparr>d_plus = (+), d_minus = (-), d_times = (*), d_div = (\<lambda>x n. x / real n),
     d_less = (<), d_zero = 0, d_two = 2, d_max = DBL_MAX, d_dot = dotp, d_norm = norm2\<rparr>"

text \<open>Invariants of the search after the first \<open>k\<close> centroids, where \<open>d j\<close> is the
  value computed for centroid \<open>j\<close>: what the tracked pair is, and whether an index was
  assigned. A matrix has the shape \<open>d\<close> by \<open>K\<close> when it has \<open>K\<close> columns of \<open>d\<close>
  entries.\<close>

definition tracked_in ::
  "('a \<Rightarrow> 'a \<Rightarrow> bool) \<Rightarrow> 'a \<Rightarrow> (nat \<Rightarrow> 'a) \<Rightarrow> nat \<Rightarrow> nat \<Rightarrow> 'a \<times> nat \<Rightarrow> bool" where
  "tracked_in lt mx d K k s =
     ((snd s = K \<and> fst s = mx \<and> (\<forall>j<k. \<not> lt (d j) mx)) \<or>
      (snd s < k \<and> fst s = d (snd s) \<and> lt (d (snd s)) mx \<and>
       (\<forall>j<k. \<not> lt (d j) (d (snd s))) \<and>
       (\<forall>j<snd s. \<exists>v. lt (d (snd s)) v \<and> \<not> lt (d j) v)))"

definition reached_in ::
  "('a \<Rightarrow> 'a \<Rightarrow> bool) \<Rightarrow> 'a \<Rightarrow> (nat \<Rightarrow> 'a) \<Rightarrow> nat \<Rightarrow> nat \<Rightarrow> 'a \<times> nat \<Rightarrow> bool" where
  "reached_in lt mx d K k s =
     ((snd s = K \<and> fst s = mx \<and> (\<forall>j<k. \<not> lt (d j) mx)) \<or>
      (snd s < k \<and> (\<exists>j<k. lt (d j) mx)))"

definition shape :: "nat \<Rightarrow> nat \<Rightarrow> 'a dmat \<Rightarrow> bool" where
  "shape d K m = (d_n_cols m = K \<and> list_all (\<lambda>c. length c = d) (d_columns m))"

text \<open>Values of the exact model read as values of the model over \<open>real_arith\<close>.\<close>

definition to_dmat :: "mat \<Rightarrow> real dmat" where
  "to_dmat m = \<lparr>d_rows = n_rows m, d_columns = columns m\<rparr>"

definition to_kmeans :: "naive_kmeans \<Rightarrow> real d_kmeans" where
  "to_kmeans km =
     \<lparr>d_dataset = to_dmat (dataset km), d_distanceCalculations = distanceCalculations km\<rparr>"

definition to_result :: "iterate_result \<Rightarrow> real d_result" where
  "to_result r =
     \<lparr>d_newCentroids = to_dmat (newCentroids r), d_counts = counts r, d_cNorm = cNorm r,
      d_object_after = to_kmeans (object_after r)\<rparr>"

section \<open>Supporting lemmas\<close>

subsection \<open>The search for the nearest centroid\<close>

lemma for_loop_append:
  "for_loop (xs @ ys) body s =
     (case for_loop xs body s of Inl e \<Rightarrow> Inl e | Inr s' \<Rightarrow> for_loop ys body s')"
  by (induction xs arbitrary: s) (auto split: sum.splits)

lemma wf_mat_col: "wf_mat m \<Longrightarrow> j < n_cols m \<Longrightarrow> length (col m j) = n_rows m"
  by (simp add: wf_mat_def n_cols_def col_def list_all_length)

lemma centroidNorms_nth:
  "j < n_cols cs \<Longrightarrow> centroidNorms cs ! j = dotp (col cs j) (col cs j)"
  by (simp add: centroidNorms_def)

lemma closer_ok:
  assumes "wf_mat cs" "length x = n_rows cs" "j < n_cols cs"
  shows "closer cs (centroidNorms cs) x (dotp x x) s j =
           Inr (if decomposed cs x j < fst s then (decomposed cs x j, j) else s)"
  using assms
  by (simp add: closer_def dot_def wf_mat_col centroidNorms_nth decomposed_def Let_def)

lemma tracked_step:
  assumes "tracked d K k s" "k < K"
  shows "tracked d K (Suc k) (if d k < fst s then (d k, k) else s)"
proof -
  have le: "fst s \<le> DBL_MAX" and lb: "\<forall>j<k. fst s \<le> d j"
    using assms(1) by (auto simp: tracked_def)
  show ?thesis
  proof (cases "d k < fst s")
    case True
    have "d k < DBL_MAX" using True le by simp
    moreover have "\<forall>j<Suc k. d k \<le> d j" using True lb by (force simp: less_Suc_eq)
    moreover have "\<forall>j<k. d k < d j" using True lb by force
    ultimately show ?thesis using True by (simp add: tracked_def)
  next
    case False
    with assms show ?thesis
      unfolding tracked_def by (auto simp: less_Suc_eq)
  qed
qed

lemma find_closest_upto:
  assumes "wf_mat cs" "length x = n_rows cs" "k \<le> n_cols cs"
  shows "\<exists>s. for_loop [0..<k] (closer cs (centroidNorms cs) x (dotp x x)) (DBL_MAX, n_cols cs) = Inr s
           \<and> tracked (decomposed cs x) (n_cols cs) k s"
  using assms(3)
proof (induction k)
  case 0
  show ?case by (simp add: tracked_def)
next
  case (Suc k)
  then obtain s where s: "for_loop [0..<k] (closer cs (centroidNorms cs) x (dotp x x)) (DBL_MAX, n_cols cs) = Inr s"
    "tracked (decomposed cs x) (n_cols cs) k s" by auto
  have k: "k < n_cols cs" using Suc.prems by simp
  show ?case
    using s(1) tracked_step[OF s(2) k] closer_ok[OF assms(1,2) k]
    by (simp add: for_loop_append)
qed

lemma find_closest_tracked:
  assumes "wf_mat cs" "length x = n_rows cs"
  shows "\<exists>s. find_closest cs (centroidNorms cs) x = Inr s
           \<and> tracked (decomposed cs x) (n_cols cs) (n_cols cs) s"
  unfolding find_closest_def using find_closest_upto[OF assms order_refl] .

lemma decomposed_sq_euclid:
  "length x = length c \<Longrightarrow>
     dotp x x + dotp c c - 2 * dotp x c = sq_euclid x c"
proof (induction x c rule: list_induct2)
  case Nil
  show ?case by (simp add: dotp_def sq_euclid_def)
next
  case (Cons a xs b ys)
  then show ?case by (simp add: dotp_def sq_euclid_def algebra_simps)
qed

subsection \<open>Accumulation over a list of points\<close>

lemma tab_cong:
  "(\<And>j r. j < K \<Longrightarrow> r < d \<Longrightarrow> F j r = F' j r) \<Longrightarrow> (\<And>j. j < K \<Longrightarrow> G j = G' j) \<Longrightarrow>
     tab d K F G = tab d K F' G'"
  by (simp add: tab_def)

lemma zeros_tab: "(zeros d K, replicate K 0) = tab d K (\<lambda>j r. 0) (\<lambda>j. 0)"
  by (auto simp: zeros_def tab_def intro!: nth_equalityI)

lemma n_cols_tab: "n_cols (fst (tab d K F G)) = K"
  by (simp add: tab_def n_cols_def)

lemma add_to_col_tab:
  assumes "c < K" "length x = d"
  shows "(add_to_col (fst (tab d K F G)) c x, (snd (tab d K F G))[c := snd (tab d K F G) ! c + 1])
           = tab d K (\<lambda>j r. F j r + (if j = c then x ! r else 0))
                     (\<lambda>j. G j + (if j = c then 1 else 0))"
  using assms
  by (auto simp: tab_def add_to_col_def col_def nth_list_update intro!: nth_equalityI)

lemma combine_tab:
  "combine (tab d K F G) (tab d K F' G')
     = tab d K (\<lambda>j r. F j r + F' j r) (\<lambda>j. G j + G' j)"
  by (auto simp: tab_def combine_def mat_add_def intro!: nth_equalityI)

lemma nearest_eq:
  assumes "wf_mat cs" "length x = n_rows cs"
  shows "\<exists>m. find_closest cs (centroidNorms cs) x = Inr (m, nearest cs x)"
  using find_closest_tracked[OF assms] by (auto simp: nearest_def)

lemma assign_point_tab:
  assumes "wf_mat cs" "wf_mat ds" "n_rows cs = n_rows ds" "i < n_cols ds" "K = n_cols cs" "d = n_rows ds"
  shows "assign_point ds cs (centroidNorms cs) (tab d K F G) i =
           (if nearest cs (col ds i) < K
            then Inr (tab d K (\<lambda>j r. F j r + (if j = nearest cs (col ds i) then col ds i ! r else 0))
                              (\<lambda>j. G j + (if j = nearest cs (col ds i) then 1 else 0)))
            else Inl IndexOutOfBounds)"
proof -
  have len: "length (col ds i) = n_rows cs"
    using assms by (simp add: wf_mat_col)
  obtain m where m: "find_closest cs (centroidNorms cs) (col ds i) = Inr (m, nearest cs (col ds i))"
    using nearest_eq[OF assms(1) len] by blast
  show ?thesis
  proof (cases "nearest cs (col ds i) < K")
    case True
    have "length (col ds i) = d" using len assms by simp
    from add_to_col_tab[OF True this] True m show ?thesis
      by (simp add: assign_point_def n_cols_tab Let_def)
  next
    case False
    with m show ?thesis by (simp add: assign_point_def n_cols_tab Let_def)
  qed
qed

lemma segment_tab:
  assumes "wf_mat cs" "wf_mat ds" "n_rows cs = n_rows ds" "\<forall>i\<in>set is. i < n_cols ds"
    "K = n_cols cs" "d = n_rows ds"
  shows "for_loop is (assign_point ds cs (centroidNorms cs)) (tab d K F G) =
           (if \<forall>i\<in>set is. nearest cs (col ds i) < K
            then Inr (tab d K
                   (\<lambda>j r. F j r + (\<Sum>i\<leftarrow>is. if nearest cs (col ds i) = j then col ds i ! r else 0))
                   (\<lambda>j. G j + (\<Sum>i\<leftarrow>is. if nearest cs (col ds i) = j then 1 else 0)))
            else Inl IndexOutOfBounds)"
  using assms(4)
proof (induction "is" arbitrary: F G)
  case Nil
  show ?case by simp
next
  case (Cons i "is")
  have i: "i < n_cols ds" using Cons.prems by simp
  have rest: "\<forall>i\<in>set is. i < n_cols ds" using Cons.prems by simp
  show ?case
  proof (cases "nearest cs (col ds i) < K")
    case True
    show ?thesis
      using True
      by (auto simp: assign_point_tab[OF assms(1,2,3) i assms(5,6)] Cons.IH[OF rest] eq_commute
               intro!: tab_cong)
  next
    case False
    then show ?thesis
      by (simp add: assign_point_tab[OF assms(1,2,3) i assms(5,6)])
  qed
qed

subsection \<open>The segments partition the index range\<close>

lemma concat_blocks: "concat (map (\<lambda>t. [t * s..<(t + 1) * s]) [0..<m]) = [0..<m * s]"
proof (induction m)
  case 0
  show ?case by simp
next
  case (Suc m)
  have "[0..<m * s + s] = [0..<m * s] @ [m * s..<m * s + s]"
    by (rule upt_add_eq_append) simp
  with Suc show ?case by (simp add: add.commute)
qed

lemma segments_cover:
  assumes "0 < T"
  shows "concat (map (segment T N (N div T)) [0..<T]) = [0..<N]"
proof -
  obtain m where T: "T = Suc m" using assms by (cases T) auto
  let ?s = "N div T"
  have le: "m * ?s \<le> N"
  proof -
    have "m * ?s \<le> T * ?s" using T by simp
    also have "\<dots> \<le> N" by simp
    finally show ?thesis .
  qed
  have inner: "map (segment T N ?s) [0..<m] = map (\<lambda>t. [t * ?s..<(t + 1) * ?s]) [0..<m]"
    using T by (auto simp: segment_def segmentStart_def segmentEnd_def)
  have last: "segment T N ?s m = [m * ?s..<N]"
    using T by (simp add: segment_def segmentStart_def segmentEnd_def)
  have front: "concat (map (segment T N ?s) [0..<m]) = [0..<m * ?s]"
    unfolding inner by (rule concat_blocks)
  have "[0..<T] = [0..<m] @ [m]" using T by simp
  then have "concat (map (segment T N ?s) [0..<T]) = [0..<m * ?s] @ [m * ?s..<N]"
    using front last by simp
  also have "\<dots> = [0..<N]"
    using le upt_add_eq_append[of 0 "m * ?s" "N - m * ?s"] by simp
  finally show ?thesis .
qed

lemma segment_bound:
  assumes "0 < T" "t < T" "i \<in> set (segment T N (N div T) t)"
  shows "i < N"
proof -
  have "i \<in> set (concat (map (segment T N (N div T)) [0..<T]))"
    using assms by auto
  then show ?thesis unfolding segments_cover[OF assms(1)] by simp
qed

subsection \<open>Threads and merge\<close>

lemma thread_local_tab:
  assumes "wf_mat cs" "wf_mat ds" "n_rows cs = n_rows ds"
    "\<forall>i\<in>set (segment T (n_cols ds) seg t). i < n_cols ds"
  shows "thread_local ds cs (centroidNorms cs) T seg t =
           (if \<forall>i\<in>set (segment T (n_cols ds) seg t). nearest cs (col ds i) < n_cols cs
            then Inr (tab (n_rows ds) (n_cols cs)
                   (\<lambda>j r. \<Sum>i\<leftarrow>segment T (n_cols ds) seg t.
                             if nearest cs (col ds i) = j then col ds i ! r else 0)
                   (\<lambda>j. \<Sum>i\<leftarrow>segment T (n_cols ds) seg t.
                             if nearest cs (col ds i) = j then 1 else 0))
            else Inl IndexOutOfBounds)"
  unfolding thread_local_def zeros_tab segment_def[symmetric]
  using segment_tab[OF assms(1,2,3,4) refl refl, of "\<lambda>j r. 0" "\<lambda>j. 0"] by simp

lemma region_tab:
  assumes "wf_mat cs" "wf_mat ds" "n_rows cs = n_rows ds"
    "\<forall>t\<in>set order. \<forall>i\<in>set (segment T (n_cols ds) seg t). i < n_cols ds"
  shows "for_loop order
           (\<lambda>shared t. case thread_local ds cs (centroidNorms cs) T seg t of
                          Inl e \<Rightarrow> Inl e
                        | Inr loc \<Rightarrow> Inr (combine shared loc))
           (tab (n_rows ds) (n_cols cs) F G) =
         (if \<forall>t\<in>set order. \<forall>i\<in>set (segment T (n_cols ds) seg t). nearest cs (col ds i) < n_cols cs
          then Inr (tab (n_rows ds) (n_cols cs)
                 (\<lambda>j r. F j r + (\<Sum>t\<leftarrow>order. \<Sum>i\<leftarrow>segment T (n_cols ds) seg t.
                             if nearest cs (col ds i) = j then col ds i ! r else 0))
                 (\<lambda>j. G j + (\<Sum>t\<leftarrow>order. \<Sum>i\<leftarrow>segment T (n_cols ds) seg t.
                             if nearest cs (col ds i) = j then 1 else 0)))
          else Inl IndexOutOfBounds)"
  using assms(4)
proof (induction order arbitrary: F G)
  case Nil
  show ?case by simp
next
  case (Cons t order)
  have t: "\<forall>i\<in>set (segment T (n_cols ds) seg t). i < n_cols ds"
    using Cons.prems by simp
  have rest: "\<forall>t\<in>set order. \<forall>i\<in>set (segment T (n_cols ds) seg t). i < n_cols ds"
    using Cons.prems by simp
  show ?case
  proof (cases "\<forall>i\<in>set (segment T (n_cols ds) seg t). nearest cs (col ds i) < n_cols cs")
    case True
    show ?thesis
      using True
      by (auto simp: thread_local_tab[OF assms(1,2,3) t] combine_tab Cons.IH[OF rest]
               intro!: tab_cong)
  next
    case False
    then show ?thesis
      by (auto simp: thread_local_tab[OF assms(1,2,3) t])
  qed
qed

lemma valid_order_mset: "valid_order T order \<Longrightarrow> mset order = mset [0..<T]"
  unfolding valid_order_def by (metis mset_sort)

lemma valid_order_set: "valid_order T order \<Longrightarrow> set order = {0..<T}"
  using valid_order_mset[THEN arg_cong, of _ _ set_mset] by simp

lemma sum_list_order:
  fixes f :: "nat \<Rightarrow> 'a::comm_monoid_add"
  assumes "valid_order T order"
  shows "(\<Sum>t\<leftarrow>order. f t) = (\<Sum>t\<leftarrow>[0..<T]. f t)"
proof -
  have "mset (map f order) = mset (map f [0..<T])"
    using valid_order_mset[OF assms] by simp
  then show ?thesis by (metis sum_mset_sum_list)
qed

lemma sum_list_concat_map:
  fixes g :: "nat \<Rightarrow> 'a::comm_monoid_add"
  shows "sum_list (map g (concat xss)) = (\<Sum>xs\<leftarrow>xss. sum_list (map g xs))"
  by (induction xss) auto

lemma sum_list_segments:
  fixes g :: "nat \<Rightarrow> 'a::comm_monoid_add"
  assumes "0 < T"
  shows "(\<Sum>t\<leftarrow>[0..<T]. \<Sum>i\<leftarrow>segment T N (N div T) t. g i) = (\<Sum>i\<leftarrow>[0..<N]. g i)"
  using sum_list_concat_map[of g "map (segment T N (N div T)) [0..<T]"]
  by (simp add: segments_cover[OF assms] comp_def)

lemma sum_list_ones: "(\<Sum>i\<leftarrow>xs. Suc 0) = length xs"
  by (induction xs) auto

lemma map_upt_update:
  "k < n \<Longrightarrow> (map f [0..<n])[k := v] = map (\<lambda>j. if j = k then v else f j) [0..<n]"
  by (auto intro!: nth_equalityI simp: nth_list_update)

lemma parallel_region_char:
  assumes "wf_mat cs" "wf_mat ds" "n_rows cs = n_rows ds" "0 < T" "valid_order T order"
  shows "parallel_region ds cs (centroidNorms cs) T (n_cols ds div T) order =
           (if \<forall>i<n_cols ds. nearest cs (col ds i) < n_cols cs
            then Inr (\<lparr>n_rows = n_rows ds, columns = map (cluster_sum ds cs) [0..<n_cols cs]\<rparr>,
                      map (\<lambda>j. length (members ds cs j)) [0..<n_cols cs])
            else Inl IndexOutOfBounds)"
proof -
  let ?N = "n_cols ds" and ?seg = "n_cols ds div T"
  have so: "set order = {0..<T}" by (rule valid_order_set[OF assms(5)])
  have bound: "\<forall>t\<in>set order. \<forall>i\<in>set (segment T ?N ?seg t). i < ?N"
    using so segment_bound[OF assms(4)] by auto
  have cover: "(\<Union>t\<in>{0..<T}. set (segment T ?N ?seg t)) = {0..<?N}"
    using arg_cong[OF segments_cover[OF assms(4), of ?N], of set] by simp
  have all: "(\<forall>t\<in>set order. \<forall>i\<in>set (segment T ?N ?seg t). nearest cs (col ds i) < n_cols cs)
               \<longleftrightarrow> (\<forall>i<?N. nearest cs (col ds i) < n_cols cs)"
    unfolding so using cover by (metis (no_types, lifting) UN_iff atLeastLessThan_iff zero_le)
  have sums: "\<And>g::nat \<Rightarrow> real. (\<Sum>t\<leftarrow>order. \<Sum>i\<leftarrow>segment T ?N ?seg t. g i) = (\<Sum>i\<leftarrow>[0..<?N]. g i)"
    by (simp add: sum_list_order[OF assms(5)] sum_list_segments[OF assms(4)])
  have sumn: "\<And>g::nat \<Rightarrow> nat. (\<Sum>t\<leftarrow>order. \<Sum>i\<leftarrow>segment T ?N ?seg t. g i) = (\<Sum>i\<leftarrow>[0..<?N]. g i)"
    by (simp add: sum_list_order[OF assms(5)] sum_list_segments[OF assms(4)])
  have cnt: "\<And>j. (\<Sum>i\<leftarrow>[0..<?N]. if nearest cs (col ds i) = j then 1 else 0) = length (members ds cs j)"
    by (simp add: members_def sum_list_map_filter'[symmetric] sum_list_ones)
  have tabeq: "tab (n_rows ds) (n_cols cs)
                 (\<lambda>j r. 0 + (\<Sum>i\<leftarrow>[0..<?N]. if nearest cs (col ds i) = j then col ds i ! r else 0))
                 (\<lambda>j. 0 + (\<Sum>i\<leftarrow>[0..<?N]. if nearest cs (col ds i) = j then 1 else 0))
               = (\<lparr>n_rows = n_rows ds, columns = map (cluster_sum ds cs) [0..<n_cols cs]\<rparr>,
                      map (\<lambda>j. length (members ds cs j)) [0..<n_cols cs])"
    using cnt by (simp add: tab_def cluster_sum_def members_def sum_list_map_filter'[symmetric])
  show ?thesis
    unfolding parallel_region_def zeros_tab region_tab[OF assms(1,2,3) bound] all sums sumn tabeq ..
qed

subsection \<open>Normalizer and shift evaluator\<close>

lemma normalize_upto:
  assumes "k \<le> n_cols m"
  shows "foldl (normalize_col cnts) m [0..<k] =
           m\<lparr>columns := map (\<lambda>j. if j < k \<and> 0 < cnts ! j
                                  then map (\<lambda>v. v / real (cnts ! j)) (col m j) else col m j)
                             [0..<n_cols m]\<rparr>"
  using assms
proof (induction k)
  case 0
  show ?case by (simp add: n_cols_def col_def map_nth)
next
  case (Suc k)
  let ?A = "\<lambda>k. map (\<lambda>j. if j < k \<and> 0 < cnts ! j
                         then map (\<lambda>v. v / real (cnts ! j)) (col m j) else col m j)
                    [0..<n_cols m]"
  have k: "k < n_cols m" using Suc.prems by simp
  have IH: "foldl (normalize_col cnts) m [0..<k] = m\<lparr>columns := ?A k\<rparr>"
    using Suc by simp
  have step: "foldl (normalize_col cnts) m [0..<Suc k] = normalize_col cnts (m\<lparr>columns := ?A k\<rparr>) k"
    by (simp add: IH)
  have Ak: "?A k ! k = col m k" using k by simp
  show ?case
  proof (cases "0 < cnts ! k")
    case True
    have "(?A k)[k := map (\<lambda>v. v / real (cnts ! k)) (col m k)] = ?A (Suc k)"
      using True k by (auto simp: map_upt_update less_Suc_eq)
    then show ?thesis
      unfolding step using True Ak by (simp add: normalize_col_def col_def[of "m\<lparr>columns := ?A k\<rparr>"])
  next
    case False
    have "?A k = ?A (Suc k)"
      using False by (auto simp: less_Suc_eq)
    then show ?thesis
      unfolding step using False by (simp add: normalize_col_def)
  qed
qed

lemma normalize_char:
  "normalize K (map C [0..<K]) \<lparr>n_rows = d, columns = map S [0..<K]\<rparr> =
     \<lparr>n_rows = d, columns = map (\<lambda>j. if 0 < C j then map (\<lambda>v. v / real (C j)) (S j) else S j) [0..<K]\<rparr>"
  unfolding normalize_def
  by (subst normalize_upto) (auto simp: n_cols_def col_def)

lemma distortion_loop:
  assumes "\<forall>j\<in>set js. length (a j) = length (b j)"
  shows "for_loop js (\<lambda>acc j. case vsub (a j) (b j) of Inl e \<Rightarrow> Inl e
                                | Inr d \<Rightarrow> Inr (acc + norm2 d)) acc
           = Inr (acc + (\<Sum>j\<leftarrow>js. norm2 (map2 (-) (a j) (b j))))"
  using assms by (induction js arbitrary: acc) (auto simp: vsub_def)

lemma distortion_char:
  assumes "\<forall>j<n_cols cs. length (col cs j) = length (col new j)"
  shows "distortion cs new = Inr (total_shift cs new)"
  unfolding distortion_def total_shift_def
  using distortion_loop[of "[0..<n_cols cs]" "col cs" "col new" 0] assms by simp

subsection \<open>What a call computes\<close>

text \<open>On well-formed inputs of equal dimension a call fails at the division exactly
  when there are fewer than a hundred points, fails at the column access exactly when
  some point finds no centroid, and otherwise returns the cluster means, the cluster
  sizes and the total shift, whatever the thread count and the merge order.\<close>

lemma effectiveThreads_zero: "effectiveThreads t N = 0 \<longleftrightarrow> N < 100"
  by (auto simp: effectiveThreads_def numThreads_def minVectorsPerThread_def min_def)

lemma length_cluster_mean: "length (cluster_mean ds cs j) = n_rows ds"
  by (simp add: cluster_mean_def cluster_sum_def)

lemma col_new_centroids: "j < n_cols cs \<Longrightarrow> col (new_centroids ds cs) j = cluster_mean ds cs j"
  by (simp add: new_centroids_def col_def)

lemma all_assigned_iff:
  "all_assigned ds cs \<longleftrightarrow> (\<forall>i<n_cols ds. nearest cs (col ds i) < n_cols cs)"
  by (simp add: all_assigned_def list_all_length n_cols_def col_def)

lemma Iterate_char:
  assumes "wf_mat cs" "wf_mat (dataset km)" "n_rows cs = n_rows (dataset km)"
    "valid_order (effectiveThreads t (n_cols (dataset km))) order"
  shows "Iterate t order km cs =
     (if n_cols (dataset km) < 100 then Inl DivisionByZero
      else if \<not> all_assigned (dataset km) cs then Inl IndexOutOfBounds
      else Inr \<lparr>newCentroids = new_centroids (dataset km) cs,
                counts = cluster_sizes (dataset km) cs,
                cNorm = total_shift cs (new_centroids (dataset km) cs),
                object_after = km\<lparr>distanceCalculations :=
                  (distanceCalculations km + n_cols cs * n_cols (dataset km)) mod 2 ^ 64\<rparr>\<rparr>)"
proof (cases "n_cols (dataset km) < 100")
  case True
  then show ?thesis
    by (simp add: Iterate_def nominalSegmentSize_def effectiveThreads_zero)
next
  case False
  let ?ds = "dataset km"
  let ?T = "effectiveThreads t (n_cols ?ds)"
  have T: "0 < ?T" using False effectiveThreads_zero[of t "n_cols ?ds"] by simp
  have seg: "nominalSegmentSize t (n_cols ?ds) = Inr (n_cols ?ds div ?T)"
    using T by (simp add: nominalSegmentSize_def)
  have unf: "Iterate t order km cs =
      (case parallel_region ?ds cs (centroidNorms cs) ?T (n_cols ?ds div ?T) order of
         Inl e \<Rightarrow> Inl e
       | Inr (summed, cnts) \<Rightarrow>
           (case distortion cs (normalize (n_cols cs) cnts summed) of
              Inl e \<Rightarrow> Inl e
            | Inr shift \<Rightarrow>
                Inr \<lparr>newCentroids = normalize (n_cols cs) cnts summed, counts = cnts,
                     cNorm = shift,
                     object_after = km\<lparr>distanceCalculations :=
                       (distanceCalculations km + n_cols cs * n_cols ?ds) mod 2 ^ 64\<rparr>\<rparr>))"
    unfolding Iterate_def Let_def seg by simp
  note reg = parallel_region_char[OF assms(1,2,3) T assms(4), folded all_assigned_iff]
  show ?thesis
  proof (cases "all_assigned ?ds cs")
    case False
    have "parallel_region ?ds cs (centroidNorms cs) ?T (n_cols ?ds div ?T) order
            = Inl IndexOutOfBounds"
      using False by (simp add: reg)
    then show ?thesis
      using False \<open>\<not> n_cols ?ds < 100\<close> by (simp add: unf)
  next
    case True
    have pr: "parallel_region ?ds cs (centroidNorms cs) ?T (n_cols ?ds div ?T) order
            = Inr (\<lparr>n_rows = n_rows ?ds, columns = map (cluster_sum ?ds cs) [0..<n_cols cs]\<rparr>,
                      map (\<lambda>j. length (members ?ds cs j)) [0..<n_cols cs])"
      using True by (simp add: reg)
    have norm: "normalize (n_cols cs) (map (\<lambda>j. length (members ?ds cs j)) [0..<n_cols cs])
            \<lparr>n_rows = n_rows ?ds, columns = map (cluster_sum ?ds cs) [0..<n_cols cs]\<rparr>
          = new_centroids ?ds cs"
      unfolding normalize_char new_centroids_def cluster_mean_def ..
    have len: "\<forall>j<n_cols cs. length (col cs j) = length (col (new_centroids ?ds cs) j)"
      using assms(1,3) by (simp add: col_new_centroids length_cluster_mean wf_mat_col)
    show ?thesis
      using True \<open>\<not> n_cols ?ds < 100\<close>
      by (simp add: unf pr norm distortion_char[OF len] cluster_sizes_def)
  qed
qed

lemma nearest_lt_iff:
  assumes "wf_mat cs" "length x = n_rows cs"
  shows "nearest cs x < n_cols cs \<longleftrightarrow> (\<exists>j<n_cols cs. decomposed cs x j < DBL_MAX)"
proof -
  obtain s where s: "find_closest cs (centroidNorms cs) x = Inr s"
    "tracked (decomposed cs x) (n_cols cs) (n_cols cs) s"
    using find_closest_tracked[OF assms] by blast
  have n: "nearest cs x = snd s" using s(1) by (simp add: nearest_def)
  from s(2) show ?thesis unfolding n tracked_def by (auto simp: not_less)
qed

lemma find_closest_in_range:
  assumes "wf_mat cs" "length x = n_rows cs" "\<exists>j<n_cols cs. decomposed cs x j < DBL_MAX"
  shows "\<exists>c<n_cols cs. find_closest cs (centroidNorms cs) x = Inr (decomposed cs x c, c)
           \<and> (\<forall>j<n_cols cs. decomposed cs x c \<le> decomposed cs x j)
           \<and> (\<forall>j<c. decomposed cs x c < decomposed cs x j)"
proof -
  obtain s where s: "find_closest cs (centroidNorms cs) x = Inr s"
    "tracked (decomposed cs x) (n_cols cs) (n_cols cs) s"
    using find_closest_tracked[OF assms(1,2)] by blast
  have "\<not> (\<forall>j<n_cols cs. DBL_MAX \<le> decomposed cs x j)"
    using assms(3) by (auto simp: not_le)
  with s(2) have t: "snd s < n_cols cs" "fst s = decomposed cs x (snd s)"
    "\<forall>j<n_cols cs. decomposed cs x (snd s) \<le> decomposed cs x j"
    "\<forall>j<snd s. decomposed cs x (snd s) < decomposed cs x j"
    unfolding tracked_def by auto
  have "s = (decomposed cs x (snd s), snd s)" using t(2) by (cases s) simp
  with s(1) t show ?thesis by metis
qed

lemma decomposed_eq_sq_euclid:
  assumes "wf_mat cs" "length x = n_rows cs" "j < n_cols cs"
  shows "decomposed cs x j = sq_euclid x (col cs j)"
  unfolding decomposed_def
  using decomposed_sq_euclid[of x "col cs j"] assms by (simp add: wf_mat_col)

lemma all_assigned_in_range:
  assumes "wf_mat cs" "wf_mat ds" "n_rows cs = n_rows ds"
  shows "all_assigned ds cs \<longleftrightarrow>
           (\<forall>i<n_cols ds. \<exists>j<n_cols cs. decomposed cs (col ds i) j < DBL_MAX)"
  unfolding all_assigned_iff
  using nearest_lt_iff[OF assms(1)] assms(2,3) by (simp add: wf_mat_col)

lemma sum_list_delta:
  "(\<Sum>j\<leftarrow>[0..<K]. if a = j then Suc 0 else 0) = (if a < K then 1 else 0)"
  by (induction K) auto

lemma class_sizes_sum:
  assumes "\<forall>i\<in>set xs. a i < K"
  shows "(\<Sum>j\<leftarrow>[0..<K]. length (filter (\<lambda>i. a i = j) xs)) = length xs"
  using assms
proof (induction xs)
  case Nil
  show ?case by simp
next
  case (Cons x xs)
  have "(\<Sum>j\<leftarrow>[0..<K]. length (filter (\<lambda>i. a i = j) (x # xs)))
          = (\<Sum>j\<leftarrow>[0..<K]. (if a x = j then Suc 0 else 0) + length (filter (\<lambda>i. a i = j) xs))"
    by (rule arg_cong[where f = sum_list]) auto
  also have "\<dots> = (\<Sum>j\<leftarrow>[0..<K]. if a x = j then Suc 0 else 0)
                    + (\<Sum>j\<leftarrow>[0..<K]. length (filter (\<lambda>i. a i = j) xs))"
    by (rule sum_list_addf)
  finally show ?case using Cons by (simp add: sum_list_delta)
qed

lemma cluster_sizes_sum:
  assumes "all_assigned ds cs"
  shows "sum_list (cluster_sizes ds cs) = n_cols ds"
  unfolding cluster_sizes_def members_def
  using class_sizes_sum[of "[0..<n_cols ds]" "\<lambda>i. nearest cs (col ds i)" "n_cols cs"] assms
  by (simp add: all_assigned_iff)

lemma vsub_same: "length a = length b \<Longrightarrow> vsub a b = Inr (map2 (-) a b)"
  by (simp add: vsub_def)

lemma vsub_differ: "length a \<noteq> length b \<Longrightarrow> vsub a b = Inl SizeMismatch"
  by (simp add: vsub_def)

lemma distortion_Inr:
  assumes "for_loop js (\<lambda>acc j. case vsub (a j) (b j) of Inl e \<Rightarrow> Inl e
                                | Inr d \<Rightarrow> Inr (acc + norm2 d)) acc = Inr v"
  shows "v = acc + (\<Sum>j\<leftarrow>js. norm2 (map2 (-) (a j) (b j)))"
  using assms
proof (induction js arbitrary: acc)
  case Nil
  then show ?case by simp
next
  case (Cons j js)
  show ?case
  proof (cases "length (a j) = length (b j)")
    case True
    then have "for_loop js (\<lambda>acc j. case vsub (a j) (b j) of Inl e \<Rightarrow> Inl e
                                | Inr d \<Rightarrow> Inr (acc + norm2 d))
                 (acc + norm2 (map2 (-) (a j) (b j))) = Inr v"
      using Cons.prems by (simp add: vsub_same)
    from Cons.IH[OF this] show ?thesis by simp
  next
    case False
    then show ?thesis using Cons.prems by (simp add: vsub_differ)
  qed
qed

lemma norm2_diff: "norm2 (map2 (-) a b) = sqrt (sq_euclid a b)"
  by (simp add: norm2_def sq_euclid_def map_zip_map2[symmetric] comp_def case_prod_unfold zip_map_fst_snd)

lemma Iterate_Inr_cNorm:
  assumes "Iterate t order km cs = Inr r"
  shows "cNorm r = total_shift cs (newCentroids r)"
  using assms unfolding Iterate_def Let_def distortion_def total_shift_def
  by (auto split: sum.splits prod.splits dest!: distortion_Inr)

subsection \<open>Facts about the concrete inputs\<close>

lemma DBL_MAX_gt_100: "100 < DBL_MAX"
  by (simp add: DBL_MAX_def)

lemma DBL_MAX_le_2_1024: "DBL_MAX \<le> 2 ^ 512 * 2 ^ 512"
  by (simp add: DBL_MAX_def)

lemma wf_scenario_centroids: "wf_mat scenario_centroids"
  by (simp add: wf_mat_def scenario_centroids_def)

lemma n_cols_scenario_centroids: "n_cols scenario_centroids = 2"
  by (simp add: n_cols_def scenario_centroids_def)

lemma wf_tiled: "wf_mat (tiled k)"
  by (auto simp: wf_mat_def tiled_def scenario_data_def list_all_iff)

lemma n_cols_tiled: "n_cols (tiled k) = 4 * k"
  by (induction k) (simp_all add: n_cols_def tiled_def scenario_data_def)

lemma set_columns_tiled: "set (columns (tiled k)) \<subseteq> {[0, 0], [0, 1], [5, 5], [5, 6]}"
  by (auto simp: tiled_def scenario_data_def)

lemma find_closest_scenario:
  "find_closest scenario_centroids (centroidNorms scenario_centroids) [0, 0] = Inr (0, 0)"
  "find_closest scenario_centroids (centroidNorms scenario_centroids) [0, 1] = Inr (1, 0)"
  "find_closest scenario_centroids (centroidNorms scenario_centroids) [5, 5] = Inr (0, 1)"
  "find_closest scenario_centroids (centroidNorms scenario_centroids) [5, 6] = Inr (1, 1)"
  using DBL_MAX_gt_100
  by (simp_all add: find_closest_def centroidNorms_def n_cols_def col_def closer_def dot_def
        dotp_def scenario_centroids_def upt_rec)

lemma nearest_scenario:
  "nearest scenario_centroids [0, 0] = 0" "nearest scenario_centroids [0, 1] = 0"
  "nearest scenario_centroids [5, 5] = 1" "nearest scenario_centroids [5, 6] = 1"
  by (simp_all add: nearest_def find_closest_scenario)

lemma all_assigned_tiled: "all_assigned (tiled k) scenario_centroids"
  unfolding all_assigned_def list_all_iff n_cols_scenario_centroids
  using set_columns_tiled[of k] nearest_scenario by auto

lemma valid_order_one: "valid_order 1 [0]"
  by (simp add: valid_order_def)

lemma valid_order_two: "valid_order 2 [1, 0]"
  by (simp add: valid_order_def upt_rec)

lemma effectiveThreads_examples:
  "effectiveThreads 1 100 = 1" "effectiveThreads 2 200 = 2" "effectiveThreads 1 200 = 1"
  by (simp_all add: effectiveThreads_def numThreads_def minVectorsPerThread_def)

lemma find_closest_far1:
  "find_closest origin1 (centroidNorms origin1) far_point = Inr (DBL_MAX, 1)"
  using DBL_MAX_le_2_1024
  by (simp add: find_closest_def centroidNorms_def n_cols_def col_def closer_def dot_def
        dotp_def origin1_def far_point_def)

lemma find_closest_far2:
  "find_closest origin2 (centroidNorms origin2) far_point = Inr (DBL_MAX, 2)"
  using DBL_MAX_le_2_1024
  by (simp add: find_closest_def centroidNorms_def n_cols_def col_def closer_def dot_def
        dotp_def origin2_def upt_rec far_point_def)

lemma not_all_assigned_no_clusters: "0 < n_cols ds \<Longrightarrow> n_cols cs = 0 \<Longrightarrow> \<not> all_assigned ds cs"
  by (auto simp: all_assigned_iff)

lemma length_scenario_point: "length [0, 1 :: real] = n_rows scenario_centroids"
  by (simp add: scenario_centroids_def)

lemma in_range_scenario:
  "\<exists>j<n_cols scenario_centroids. decomposed scenario_centroids [0, 1] j < DBL_MAX"
  using nearest_lt_iff[OF wf_scenario_centroids length_scenario_point]
  by (simp add: nearest_scenario n_cols_scenario_centroids)

lemma n_cols_origin1: "n_cols origin1 = 1"
  by (simp add: n_cols_def origin1_def)

lemma n_cols_origin2: "n_cols origin2 = 2"
  by (simp add: n_cols_def origin2_def)

lemma col_far_data: "col far_data 0 = far_point"
  by (simp add: col_def far_data_def)

lemma assign_point_far1:
  "assign_point far_data origin1 (centroidNorms origin1) (zeros 1 1, [0]) 0 = Inl IndexOutOfBounds"
  by (simp add: assign_point_def col_far_data find_closest_far1 zeros_def n_cols_def Let_def)

lemma assign_point_far2:
  "assign_point far_data origin2 (centroidNorms origin2) (zeros 1 2, [0, 0]) 0 = Inl IndexOutOfBounds"
  by (simp add: assign_point_def col_far_data find_closest_far2 zeros_def n_cols_def Let_def)

lemma equidistant_far: "decomposed origin2 far_point 0 = decomposed origin2 far_point 1"
  by (simp add: decomposed_def origin2_def col_def)

lemma members_iff:
  "i \<in> set (members ds cs j) \<longleftrightarrow> i < n_cols ds \<and> nearest cs (col ds i) = j"
  by (auto simp: members_def)

lemma dataset_tiled_kernel: "dataset (tiled_kernel k) = tiled k"
  by (simp add: tiled_kernel_def)

lemma n_rows_tiled: "n_rows scenario_centroids = n_rows (tiled k)"
  by (simp add: scenario_centroids_def tiled_def)

lemma Iterate_tiled_100:
  "Iterate 1 [0] (tiled_kernel 25) scenario_centroids =
     Inr \<lparr>newCentroids = new_centroids (tiled 25) scenario_centroids,
          counts = cluster_sizes (tiled 25) scenario_centroids,
          cNorm = total_shift scenario_centroids (new_centroids (tiled 25) scenario_centroids),
          object_after = (tiled_kernel 25)\<lparr>distanceCalculations := 200\<rparr>\<rparr>"
proof -
  have N: "n_cols (dataset (tiled_kernel 25)) = 100"
    by (simp add: dataset_tiled_kernel n_cols_tiled)
  have ord: "valid_order (effectiveThreads 1 (n_cols (dataset (tiled_kernel 25)))) [0]"
    unfolding N effectiveThreads_examples by (rule valid_order_one)
  have wfd: "wf_mat (dataset (tiled_kernel 25))"
    by (simp add: dataset_tiled_kernel wf_tiled)
  have rows: "n_rows scenario_centroids = n_rows (dataset (tiled_kernel 25))"
    by (simp add: dataset_tiled_kernel n_rows_tiled)
  show ?thesis
    unfolding Iterate_char[OF wf_scenario_centroids wfd rows ord]
    by (simp add: dataset_tiled_kernel n_cols_tiled all_assigned_tiled n_cols_scenario_centroids)
      (simp add: tiled_kernel_def)
qed

lemma in_range_tiled:
  "\<forall>i<n_cols (dataset (tiled_kernel k)).
     \<exists>j<n_cols scenario_centroids. decomposed scenario_centroids (col (dataset (tiled_kernel k)) i) j < DBL_MAX"
  using all_assigned_in_range[OF wf_scenario_centroids wf_tiled n_rows_tiled, of k]
    all_assigned_tiled[of k]
  by (simp add: dataset_tiled_kernel)

lemma nearest_far1: "nearest origin1 far_point = 1"
  by (simp add: nearest_def find_closest_far1)

lemma not_all_assigned_far: "\<not> all_assigned far_data origin1"
  by (simp add: all_assigned_def far_data_def nearest_far1 n_cols_origin1 list_all_iff)

lemma norm2_same: "norm2 (map2 (-) a a) = 0"
  by (simp add: norm2_def zip_same_conv_map comp_def)

lemma total_shift_same: "total_shift cs cs = 0"
  by (simp add: total_shift_def norm2_same)









lemma thread_local_scenario:
  "thread_local scenario_data scenario_centroids (centroidNorms scenario_centroids) 1 4 0
     = Inr (\<lparr>n_rows = 2, columns = [[0, 1], [10, 11]]\<rparr>, [2, 2])"
  by (simp add: thread_local_def segmentStart_def segmentEnd_def upt_rec assign_point_def
        find_closest_scenario scenario_data_def col_def n_cols_def zeros_def add_to_col_def
        scenario_centroids_def[THEN arg_cong, of columns] numeral_2_eq_2 numeral_3_eq_3 Let_def)

lemma parallel_region_scenario:
  "parallel_region scenario_data scenario_centroids (centroidNorms scenario_centroids) 1 4 [0]
     = Inr (\<lparr>n_rows = 2, columns = [[0, 1], [10, 11]]\<rparr>, [2, 2])"
  unfolding parallel_region_def for_loop.simps thread_local_scenario
  by (simp add: combine_def mat_add_def zeros_def scenario_data_def n_cols_scenario_centroids
        numeral_2_eq_2)

lemma normalize_scenario:
  "normalize 2 [2, 2] \<lparr>n_rows = 2, columns = [[0, 1], [10, 11]]\<rparr>
     = \<lparr>n_rows = 2, columns = [[0, 1 / 2], [5, 11 / 2]]\<rparr>"
  by (simp add: normalize_def normalize_col_def upt_rec col_def)

lemma distortion_scenario:
  "distortion scenario_centroids \<lparr>n_rows = 2, columns = [[0, 1 / 2], [5, 11 / 2]]\<rparr> = Inr 1"
  by (simp add: distortion_def scenario_centroids_def n_cols_def upt_rec col_def vsub_def
        norm2_def real_sqrt_divide)

lemma columns_members:
  "map (col ds) (members ds cs j) = filter (\<lambda>x. nearest cs x = j) (columns ds)"
proof -
  have "map (col ds) (members ds cs j)
          = filter (\<lambda>x. nearest cs x = j) (map (col ds) [0..<n_cols ds])"
    by (simp add: members_def filter_map comp_def)
  also have "map (col ds) [0..<n_cols ds] = columns ds"
    by (simp add: col_def[abs_def] n_cols_def map_nth)
  finally show ?thesis .
qed

lemma length_members:
  "length (members ds cs j) = length (filter (\<lambda>x. nearest cs x = j) (columns ds))"
  using arg_cong[OF columns_members[of ds cs j], of length] by simp

lemma sum_members:
  "(\<Sum>i\<leftarrow>members ds cs j. col ds i ! r)
     = (\<Sum>x\<leftarrow>filter (\<lambda>x. nearest cs x = j) (columns ds). x ! r)"
  using arg_cong[OF columns_members[of ds cs j], of "\<lambda>xs. sum_list (map (\<lambda>x. x ! r) xs)"]
  by (simp add: comp_def)

lemma filter_tiled:
  "filter P (concat (replicate k xs)) = concat (replicate k (filter P xs))"
  by (induction k) simp_all

lemma length_concat_replicate: "length (concat (replicate k xs)) = k * length xs"
  by (induction k) simp_all

lemma sum_concat_replicate:
  fixes f :: "'a \<Rightarrow> real"
  shows "(\<Sum>x\<leftarrow>concat (replicate k xs). f x) = real k * (\<Sum>x\<leftarrow>xs. f x)"
  by (induction k) (simp_all add: algebra_simps)

lemma filter_scenario:
  "filter (\<lambda>x. nearest scenario_centroids x = 0) (columns scenario_data) = [[0, 0], [0, 1]]"
  "filter (\<lambda>x. nearest scenario_centroids x = Suc 0) (columns scenario_data) = [[5, 5], [5, 6]]"
  by (simp_all add: scenario_data_def nearest_scenario)

lemma filter_columns_tiled:
  "filter P (columns (tiled k)) = concat (replicate k (filter P (columns scenario_data)))"
  by (simp add: tiled_def filter_tiled)

lemma length_members_tiled:
  "length (members (tiled k) scenario_centroids 0) = 2 * k"
  "length (members (tiled k) scenario_centroids (Suc 0)) = 2 * k"
  by (simp_all add: length_members filter_columns_tiled filter_scenario length_concat_replicate)

lemma n_rows_tiled_2: "n_rows (tiled k) = 2"
  by (simp add: tiled_def)

lemma cluster_sizes_tiled: "cluster_sizes (tiled k) scenario_centroids = [2 * k, 2 * k]"
  by (simp add: cluster_sizes_def n_cols_scenario_centroids upt_rec length_members_tiled
        numeral_2_eq_2)

lemma cluster_sum_tiled:
  "cluster_sum (tiled k) scenario_centroids 0 = [0, real k]"
  "cluster_sum (tiled k) scenario_centroids (Suc 0) = [10 * real k, 11 * real k]"
  by (simp_all add: cluster_sum_def sum_members filter_columns_tiled filter_scenario
        sum_concat_replicate n_rows_tiled_2 upt_rec numeral_2_eq_2)

lemma cluster_mean_tiled:
  assumes "0 < k"
  shows "cluster_mean (tiled k) scenario_centroids 0 = [0, 1 / 2]"
    and "cluster_mean (tiled k) scenario_centroids (Suc 0) = [5, 11 / 2]"
  using assms
  by (simp_all add: cluster_mean_def cluster_sum_tiled length_members_tiled field_simps)

lemma new_centroids_tiled:
  "0 < k \<Longrightarrow> new_centroids (tiled k) scenario_centroids
             = \<lparr>n_rows = 2, columns = [[0, 1 / 2], [5, 11 / 2]]\<rparr>"
  by (simp add: new_centroids_def n_cols_scenario_centroids upt_rec cluster_mean_tiled
        numeral_2_eq_2 n_rows_tiled_2)

lemma total_shift_scenario:
  "total_shift scenario_centroids \<lparr>n_rows = 2, columns = [[0, 1 / 2], [5, 11 / 2]]\<rparr> = 1"
  by (simp add: total_shift_def scenario_centroids_def n_cols_def upt_rec col_def
        norm2_def real_sqrt_divide)

lemma Iterate_tiled_values:
  "Iterate 1 [0] (tiled_kernel 25) scenario_centroids =
     Inr \<lparr>newCentroids = \<lparr>n_rows = 2, columns = [[0, 1 / 2], [5, 11 / 2]]\<rparr>,
          counts = [50, 50], cNorm = 1,
          object_after = (tiled_kernel 25)\<lparr>distanceCalculations := 200\<rparr>\<rparr>"
  unfolding Iterate_tiled_100
  by (simp add: new_centroids_tiled cluster_sizes_tiled total_shift_scenario)

subsection \<open>The search in any arithmetic\<close>

lemma d_wf_col: "d_wf m \<Longrightarrow> j < d_n_cols m \<Longrightarrow> length (d_col m j) = d_rows m"
  by (simp add: d_wf_def d_n_cols_def d_col_def list_all_length)

lemma centroidNorms_in_nth:
  "j < d_n_cols cs \<Longrightarrow> centroidNorms_in A cs ! j = d_dot A (d_col cs j) (d_col cs j)"
  by (simp add: centroidNorms_in_def)

lemma closer_in_ok:
  assumes "d_wf cs" "length x = d_rows cs" "j < d_n_cols cs"
  shows "closer_in A cs (centroidNorms_in A cs) x (d_dot A x x) s j =
           Inr (if d_less A (computed A cs x j) (fst s) then (computed A cs x j, j) else s)"
  using assms
  by (simp add: closer_in_def dot_in_def d_wf_col centroidNorms_in_nth computed_def Let_def)

lemma reached_in_step:
  assumes "reached_in lt mx d K k s" "k < K"
  shows "reached_in lt mx d K (Suc k) (if lt (d k) (fst s) then (d k, k) else s)"
  using assms unfolding reached_in_def by (auto simp: less_Suc_eq)

lemma tracked_in_step:
  assumes irrefl: "\<forall>a. \<not> lt a a"
    and trans: "\<forall>a b c. lt a b \<longrightarrow> lt b c \<longrightarrow> lt a c"
    and inv: "tracked_in lt mx d K k s" and k: "k < K"
  shows "tracked_in lt mx d K (Suc k) (if lt (d k) (fst s) then (d k, k) else s)"
proof (cases "lt (d k) (fst s)")
  case True
  have below: "\<forall>j<k. \<not> lt (d j) (fst s)"
    using inv unfolding tracked_in_def by auto
  have "fst s = mx \<or> lt (fst s) mx"
    using inv unfolding tracked_in_def by auto
  then have mx: "lt (d k) mx" using True trans by auto
  have "\<forall>j<k. \<not> lt (d j) (d k)"
    using below True trans by blast
  then have min: "\<forall>j<Suc k. \<not> lt (d j) (d k)"
    using irrefl by (auto simp: less_Suc_eq)
  have tie: "\<forall>j<k. \<exists>v. lt (d k) v \<and> \<not> lt (d j) v"
    using below True by blast
  show ?thesis
    using True mx min tie by (simp add: tracked_in_def)
next
  case False
  with inv k show ?thesis
    unfolding tracked_in_def by (auto simp: less_Suc_eq)
qed

lemma find_closest_in_reached_upto:
  assumes "d_wf cs" "length x = d_rows cs" "k \<le> d_n_cols cs"
  shows "\<exists>s. for_loop [0..<k] (closer_in A cs (centroidNorms_in A cs) x (d_dot A x x))
                (d_max A, d_n_cols cs) = Inr s
           \<and> reached_in (d_less A) (d_max A) (computed A cs x) (d_n_cols cs) k s"
  using assms(3)
proof (induction k)
  case 0
  show ?case by (simp add: reached_in_def)
next
  case (Suc k)
  then obtain s where s:
    "for_loop [0..<k] (closer_in A cs (centroidNorms_in A cs) x (d_dot A x x))
       (d_max A, d_n_cols cs) = Inr s"
    "reached_in (d_less A) (d_max A) (computed A cs x) (d_n_cols cs) k s"
    by auto
  have k: "k < d_n_cols cs" using Suc.prems by simp
  show ?case
    using s(1) reached_in_step[OF s(2) k] closer_in_ok[OF assms(1,2) k]
    by (simp add: for_loop_append)
qed

lemma find_closest_in_tracked_upto:
  assumes "d_wf cs" "length x = d_rows cs" "k \<le> d_n_cols cs"
    and irrefl: "\<forall>a. \<not> d_less A a a"
    and trans: "\<forall>a b c. d_less A a b \<longrightarrow> d_less A b c \<longrightarrow> d_less A a c"
  shows "\<exists>s. for_loop [0..<k] (closer_in A cs (centroidNorms_in A cs) x (d_dot A x x))
                (d_max A, d_n_cols cs) = Inr s
           \<and> tracked_in (d_less A) (d_max A) (computed A cs x) (d_n_cols cs) k s"
  using assms(3)
proof (induction k)
  case 0
  show ?case by (simp add: tracked_in_def)
next
  case (Suc k)
  then obtain s where s:
    "for_loop [0..<k] (closer_in A cs (centroidNorms_in A cs) x (d_dot A x x))
       (d_max A, d_n_cols cs) = Inr s"
    "tracked_in (d_less A) (d_max A) (computed A cs x) (d_n_cols cs) k s"
    by auto
  have k: "k < d_n_cols cs" using Suc.prems by simp
  show ?case
    using s(1) tracked_in_step[OF irrefl trans s(2) k] closer_in_ok[OF assms(1,2) k]
    by (simp add: for_loop_append)
qed

lemma find_closest_in_reached:
  assumes "d_wf cs" "length x = d_rows cs"
  shows "\<exists>s. find_closest_in A cs (centroidNorms_in A cs) x = Inr s
           \<and> reached_in (d_less A) (d_max A) (computed A cs x) (d_n_cols cs) (d_n_cols cs) s"
  unfolding find_closest_in_def using find_closest_in_reached_upto[OF assms order_refl] .

lemma nearest_in_eq:
  assumes "d_wf cs" "length x = d_rows cs"
  shows "\<exists>m. find_closest_in A cs (centroidNorms_in A cs) x = Inr (m, nearest_in A cs x)"
  using find_closest_in_reached[OF assms, of A] by (auto simp: nearest_in_def)

lemma nearest_in_lt_iff:
  assumes "d_wf cs" "length x = d_rows cs"
  shows "nearest_in A cs x < d_n_cols cs
           \<longleftrightarrow> (\<exists>j<d_n_cols cs. d_less A (computed A cs x j) (d_max A))"
proof -
  obtain s where s: "find_closest_in A cs (centroidNorms_in A cs) x = Inr s"
    "reached_in (d_less A) (d_max A) (computed A cs x) (d_n_cols cs) (d_n_cols cs) s"
    using find_closest_in_reached[OF assms, of A] by blast
  have n: "nearest_in A cs x = snd s" using s(1) by (simp add: nearest_in_def)
  from s(2) show ?thesis unfolding n reached_in_def by auto
qed

lemma find_closest_in_tracked:
  assumes "d_wf cs" "length x = d_rows cs"
    and "\<forall>a. \<not> d_less A a a"
    and "\<forall>a b c. d_less A a b \<longrightarrow> d_less A b c \<longrightarrow> d_less A a c"
    and "\<exists>j<d_n_cols cs. d_less A (computed A cs x j) (d_max A)"
  shows "\<exists>c<d_n_cols cs.
           find_closest_in A cs (centroidNorms_in A cs) x = Inr (computed A cs x c, c) \<and>
           d_less A (computed A cs x c) (d_max A) \<and>
           (\<forall>j<d_n_cols cs. \<not> d_less A (computed A cs x j) (computed A cs x c)) \<and>
           (\<forall>j<c. \<exists>v. d_less A (computed A cs x c) v \<and> \<not> d_less A (computed A cs x j) v)"
proof -
  obtain s where s: "find_closest_in A cs (centroidNorms_in A cs) x = Inr s"
    "tracked_in (d_less A) (d_max A) (computed A cs x) (d_n_cols cs) (d_n_cols cs) s"
    using find_closest_in_tracked_upto[OF assms(1,2) order_refl assms(3,4)]
    unfolding find_closest_in_def by blast
  have "\<not> (\<forall>j<d_n_cols cs. \<not> d_less A (computed A cs x j) (d_max A))"
    using assms(5) by blast
  with s(2) have t: "snd s < d_n_cols cs" "fst s = computed A cs x (snd s)"
    "d_less A (computed A cs x (snd s)) (d_max A)"
    "\<forall>j<d_n_cols cs. \<not> d_less A (computed A cs x j) (computed A cs x (snd s))"
    "\<forall>j<snd s. \<exists>v. d_less A (computed A cs x (snd s)) v \<and> \<not> d_less A (computed A cs x j) v"
    unfolding tracked_in_def by auto
  have "s = (computed A cs x (snd s), snd s)" using t(2) by (cases s) simp
  with s(1) t show ?thesis by metis
qed

subsection \<open>Counts in any arithmetic\<close>

lemma shape_zeros: "shape d K (zeros_in A d K)"
  by (simp add: shape_def zeros_in_def d_n_cols_def list_all_iff)

lemma shape_add_to_col:
  assumes "shape d K m" "c < K" "length x = d"
  shows "shape d K (add_to_col_in A m c x)"
  using assms
  by (auto simp: shape_def add_to_col_in_def d_n_cols_def d_col_def list_all_length
        nth_list_update)

lemma shape_mat_add:
  assumes "shape d K a" "shape d K b"
  shows "shape d K (mat_add_in A a b)"
  using assms
  by (auto simp: shape_def mat_add_in_def d_n_cols_def list_all_length)

lemma counts_update:
  fixes G :: "nat \<Rightarrow> nat"
  shows "c < K \<Longrightarrow> (map G [0..<K])[c := Suc (G c)]
            = map (\<lambda>j. G j + (if j = c then 1 else 0)) [0..<K]"
  by (auto intro!: nth_equalityI simp: nth_list_update)

lemma counts_add:
  fixes G G' :: "nat \<Rightarrow> nat"
  shows "map2 (+) (map G [0..<K]) (map G' [0..<K]) = map (\<lambda>j. G j + G' j) [0..<K]"
  by (auto intro!: nth_equalityI)

lemma assign_point_in_counts:
  assumes "d_wf cs" "d_wf ds" "d_rows cs = d_rows ds" "i < d_n_cols ds"
    and "shape (d_rows ds) (d_n_cols cs) m"
  shows "assign_point_in A ds cs (centroidNorms_in A cs) (m, map G [0..<d_n_cols cs]) i =
           (if nearest_in A cs (d_col ds i) < d_n_cols cs
            then Inr (add_to_col_in A m (nearest_in A cs (d_col ds i)) (d_col ds i),
                      map (\<lambda>j. G j + (if j = nearest_in A cs (d_col ds i) then 1 else 0))
                        [0..<d_n_cols cs])
            else Inl IndexOutOfBounds)"
proof -
  have len: "length (d_col ds i) = d_rows cs"
    using assms by (simp add: d_wf_col)
  obtain v where v: "find_closest_in A cs (centroidNorms_in A cs) (d_col ds i)
                       = Inr (v, nearest_in A cs (d_col ds i))"
    using nearest_in_eq[OF assms(1) len] by blast
  have K: "d_n_cols m = d_n_cols cs" using assms(5) by (simp add: shape_def)
  show ?thesis
    using v K by (simp add: assign_point_in_def Let_def counts_update)
qed

lemma segment_in_counts:
  assumes "d_wf cs" "d_wf ds" "d_rows cs = d_rows ds" "\<forall>i\<in>set is. i < d_n_cols ds"
    and "shape (d_rows ds) (d_n_cols cs) m"
  shows "if \<forall>i\<in>set is. nearest_in A cs (d_col ds i) < d_n_cols cs
         then \<exists>m'. for_loop is (assign_point_in A ds cs (centroidNorms_in A cs))
                      (m, map G [0..<d_n_cols cs])
                    = Inr (m', map (\<lambda>j. G j + (\<Sum>i\<leftarrow>is. if nearest_in A cs (d_col ds i) = j
                                                       then 1 else 0)) [0..<d_n_cols cs])
                  \<and> shape (d_rows ds) (d_n_cols cs) m'
         else for_loop is (assign_point_in A ds cs (centroidNorms_in A cs))
                (m, map G [0..<d_n_cols cs]) = Inl IndexOutOfBounds"
  using assms(4,5)
proof (induction "is" arbitrary: m G)
  case Nil
  then show ?case by simp
next
  case (Cons i "is")
  have i: "i < d_n_cols ds" using Cons.prems by simp
  have rest: "\<forall>i\<in>set is. i < d_n_cols ds" using Cons.prems by simp
  note step = assign_point_in_counts[OF assms(1,2,3) i Cons.prems(2), where A = A and G = G]
  show ?case
  proof (cases "nearest_in A cs (d_col ds i) < d_n_cols cs")
    case False
    then show ?thesis by (simp add: step)
  next
    case True
    let ?c = "nearest_in A cs (d_col ds i)"
    have len: "length (d_col ds i) = d_rows ds" using assms(2) i by (simp add: d_wf_col)
    have sh: "shape (d_rows ds) (d_n_cols cs) (add_to_col_in A m ?c (d_col ds i))"
      by (rule shape_add_to_col[OF Cons.prems(2) True len])
    note IH = Cons.IH[OF rest sh, where G = "\<lambda>j. G j + (if j = ?c then 1 else 0)"]
    have eq: "(\<lambda>j. G j + (if j = ?c then 1 else 0)
                 + (\<Sum>i\<leftarrow>is. if nearest_in A cs (d_col ds i) = j then 1 else 0))
            = (\<lambda>j. G j + (\<Sum>i\<leftarrow>i # is. if nearest_in A cs (d_col ds i) = j then 1 else 0))"
      by (auto simp: fun_eq_iff)
    show ?thesis
      using True IH unfolding eq by (simp add: step split: if_splits)
  qed
qed

lemma thread_local_in_counts:
  assumes "d_wf cs" "d_wf ds" "d_rows cs = d_rows ds"
    "\<forall>i\<in>set (segment T (d_n_cols ds) seg t). i < d_n_cols ds"
  shows "if \<forall>i\<in>set (segment T (d_n_cols ds) seg t). nearest_in A cs (d_col ds i) < d_n_cols cs
         then \<exists>m'. thread_local_in A ds cs (centroidNorms_in A cs) T seg t
                    = Inr (m', map (\<lambda>j. \<Sum>i\<leftarrow>segment T (d_n_cols ds) seg t.
                                     if nearest_in A cs (d_col ds i) = j then 1 else 0)
                                 [0..<d_n_cols cs])
                  \<and> shape (d_rows ds) (d_n_cols cs) m'
         else thread_local_in A ds cs (centroidNorms_in A cs) T seg t = Inl IndexOutOfBounds"
proof -
  have z: "replicate (d_n_cols cs) (0::nat) = map (\<lambda>j. 0) [0..<d_n_cols cs]"
    by (simp add: map_replicate_const)
  show ?thesis
    unfolding thread_local_in_def segment_def[symmetric] z
    using segment_in_counts[OF assms(1,2,3,4) shape_zeros[where A = A], where A = A and G = "\<lambda>j. 0"] by (simp cong: if_cong)
qed

lemma region_in_counts:
  assumes "d_wf cs" "d_wf ds" "d_rows cs = d_rows ds"
    "\<forall>t\<in>set order. \<forall>i\<in>set (segment T (d_n_cols ds) seg t). i < d_n_cols ds"
    and "shape (d_rows ds) (d_n_cols cs) m"
  shows "if \<forall>t\<in>set order. \<forall>i\<in>set (segment T (d_n_cols ds) seg t).
              nearest_in A cs (d_col ds i) < d_n_cols cs
         then \<exists>m'. for_loop order
                      (\<lambda>shared t. case thread_local_in A ds cs (centroidNorms_in A cs) T seg t of
                                     Inl e \<Rightarrow> Inl e
                                   | Inr loc \<Rightarrow> Inr (combine_in A shared loc))
                      (m, map G [0..<d_n_cols cs])
                    = Inr (m', map (\<lambda>j. G j + (\<Sum>t\<leftarrow>order. \<Sum>i\<leftarrow>segment T (d_n_cols ds) seg t.
                                     if nearest_in A cs (d_col ds i) = j then 1 else 0))
                                 [0..<d_n_cols cs])
                  \<and> shape (d_rows ds) (d_n_cols cs) m'
         else for_loop order
                (\<lambda>shared t. case thread_local_in A ds cs (centroidNorms_in A cs) T seg t of
                               Inl e \<Rightarrow> Inl e
                             | Inr loc \<Rightarrow> Inr (combine_in A shared loc))
                (m, map G [0..<d_n_cols cs]) = Inl IndexOutOfBounds"
  using assms(4,5)
proof (induction order arbitrary: m G)
  case Nil
  then show ?case by simp
next
  case (Cons t order)
  have t: "\<forall>i\<in>set (segment T (d_n_cols ds) seg t). i < d_n_cols ds"
    using Cons.prems by simp
  have rest: "\<forall>t\<in>set order. \<forall>i\<in>set (segment T (d_n_cols ds) seg t). i < d_n_cols ds"
    using Cons.prems by simp
  note loc = thread_local_in_counts[OF assms(1,2,3) t, where A = A]
  show ?case
  proof (cases "\<forall>i\<in>set (segment T (d_n_cols ds) seg t). nearest_in A cs (d_col ds i) < d_n_cols cs")
    case False
    then have "thread_local_in A ds cs (centroidNorms_in A cs) T seg t = Inl IndexOutOfBounds"
      using loc by auto
    with False show ?thesis by auto
  next
    case True
    let ?L = "\<lambda>j. \<Sum>i\<leftarrow>segment T (d_n_cols ds) seg t.
                 if nearest_in A cs (d_col ds i) = j then (1::nat) else 0"
    obtain m1 where m1: "thread_local_in A ds cs (centroidNorms_in A cs) T seg t
                           = Inr (m1, map ?L [0..<d_n_cols cs])"
      "shape (d_rows ds) (d_n_cols cs) m1"
      using loc True by auto
    have sh: "shape (d_rows ds) (d_n_cols cs) (mat_add_in A m m1)"
      by (rule shape_mat_add[OF Cons.prems(2) m1(2)])
    have comb: "combine_in A (m, map G [0..<d_n_cols cs]) (m1, map ?L [0..<d_n_cols cs])
                  = (mat_add_in A m m1, map (\<lambda>j. G j + ?L j) [0..<d_n_cols cs])"
      by (simp add: combine_in_def counts_add)
    note IH = Cons.IH[OF rest sh, where G = "\<lambda>j. G j + ?L j"]
    have eq: "(\<lambda>j. G j + ?L j + (\<Sum>t\<leftarrow>order. \<Sum>i\<leftarrow>segment T (d_n_cols ds) seg t.
                                     if nearest_in A cs (d_col ds i) = j then 1 else 0))
            = (\<lambda>j. G j + (\<Sum>t\<leftarrow>t # order. \<Sum>i\<leftarrow>segment T (d_n_cols ds) seg t.
                                     if nearest_in A cs (d_col ds i) = j then 1 else 0))"
      by (auto simp: fun_eq_iff)
    show ?thesis
      using True IH unfolding eq by (simp add: m1(1) comb split: if_splits)
  qed
qed

lemma shape_col: "shape d K m \<Longrightarrow> j < K \<Longrightarrow> length (d_col m j) = d"
  by (simp add: shape_def d_n_cols_def d_col_def list_all_length)

lemma shape_normalize_col:
  assumes "shape d K m"
  shows "shape d K (normalize_col_in A cnts m j)"
proof (cases "j < d_n_cols m")
  case True
  with assms show ?thesis
    by (auto simp: shape_def normalize_col_in_def d_n_cols_def d_col_def list_all_length
          nth_list_update)
next
  case False
  then have "(d_columns m)[j := v] = d_columns m" for v
    by (simp add: d_n_cols_def list_update_beyond)
  with assms show ?thesis
    by (simp add: shape_def normalize_col_in_def d_n_cols_def)
qed

lemma shape_normalize:
  assumes "shape d K m"
  shows "shape d K (foldl (normalize_col_in A cnts) m js)"
  using assms by (induction js arbitrary: m) (simp_all add: shape_normalize_col)

lemma distortion_in_returns:
  assumes "\<forall>j\<in>set js. length (a j) = length (b j)"
  shows "\<exists>v. for_loop js (\<lambda>acc j. case vsub_in A (a j) (b j) of Inl e \<Rightarrow> Inl e
                                    | Inr d \<Rightarrow> Inr (d_plus A acc (d_norm A d))) acc = Inr v"
  using assms by (induction js arbitrary: acc) (auto simp: vsub_in_def)

lemma parallel_region_in_counts:
  assumes "d_wf cs" "d_wf ds" "d_rows cs = d_rows ds" "0 < T" "valid_order T order"
    and "\<forall>i<d_n_cols ds. nearest_in A cs (d_col ds i) < d_n_cols cs"
  shows "\<exists>m'. parallel_region_in A ds cs (centroidNorms_in A cs) T (d_n_cols ds div T) order
                = Inr (m', map (\<lambda>j. length (members_in A ds cs j)) [0..<d_n_cols cs])
              \<and> shape (d_rows ds) (d_n_cols cs) m'"
proof -
  let ?N = "d_n_cols ds" and ?seg = "d_n_cols ds div T"
  have so: "set order = {0..<T}" by (rule valid_order_set[OF assms(5)])
  have bound: "\<forall>t\<in>set order. \<forall>i\<in>set (segment T ?N ?seg t). i < ?N"
    using so segment_bound[OF assms(4)] by auto
  have all: "\<forall>t\<in>set order. \<forall>i\<in>set (segment T ?N ?seg t).
               nearest_in A cs (d_col ds i) < d_n_cols cs"
    using bound assms(6) by blast
  have sumn: "\<And>g::nat \<Rightarrow> nat. (\<Sum>t\<leftarrow>order. \<Sum>i\<leftarrow>segment T ?N ?seg t. g i) = (\<Sum>i\<leftarrow>[0..<?N]. g i)"
    by (simp add: sum_list_order[OF assms(5)] sum_list_segments[OF assms(4)])
  have cnt: "\<And>j. (\<Sum>i\<leftarrow>[0..<?N]. if nearest_in A cs (d_col ds i) = j then Suc 0 else 0)
                 = length (members_in A ds cs j)"
    by (simp add: members_in_def sum_list_map_filter'[symmetric] sum_list_ones)
  have z: "replicate (d_n_cols cs) (0::nat) = map (\<lambda>j. 0) [0..<d_n_cols cs]"
    by (simp add: map_replicate_const)
  show ?thesis
    unfolding parallel_region_in_def z
    using region_in_counts[OF assms(1,2,3) bound shape_zeros[where A = A],
            where A = A and G = "\<lambda>j. 0"] all
    by (simp add: sumn cnt cong: if_cong)
qed

lemma Iterate_in_counts:
  assumes "d_wf cs" "d_wf (d_dataset km)" "d_rows cs = d_rows (d_dataset km)"
    and "valid_order (effectiveThreads t (d_n_cols (d_dataset km))) order"
    and "0 < effectiveThreads t (d_n_cols (d_dataset km))"
    and "\<forall>i<d_n_cols (d_dataset km). nearest_in A cs (d_col (d_dataset km) i) < d_n_cols cs"
  shows "\<exists>r. Iterate_in A t order km cs = Inr r \<and>
             d_counts r = map (\<lambda>j. length (members_in A (d_dataset km) cs j)) [0..<d_n_cols cs]"
proof -
  let ?ds = "d_dataset km"
  let ?T = "effectiveThreads t (d_n_cols ?ds)"
  let ?C = "map (\<lambda>j. length (members_in A ?ds cs j)) [0..<d_n_cols cs]"
  have seg: "nominalSegmentSize t (d_n_cols ?ds) = Inr (d_n_cols ?ds div ?T)"
    using assms(5) by (simp add: nominalSegmentSize_def)
  obtain m' where m': "parallel_region_in A ?ds cs (centroidNorms_in A cs) ?T
                         (d_n_cols ?ds div ?T) order = Inr (m', ?C)"
    "shape (d_rows ?ds) (d_n_cols cs) m'"
    using parallel_region_in_counts[OF assms(1,2,3,5,4,6)] by blast
  let ?newC = "normalize_in A (d_n_cols cs) ?C m'"
  have sh: "shape (d_rows ?ds) (d_n_cols cs) ?newC"
    unfolding normalize_in_def by (rule shape_normalize[OF m'(2)])
  have len: "\<forall>j\<in>set [0..<d_n_cols cs]. length (d_col cs j) = length (d_col ?newC j)"
    using assms(1,3) sh by (simp add: d_wf_col shape_col)
  obtain v where v: "distortion_in A cs ?newC = Inr v"
    unfolding distortion_in_def
    using distortion_in_returns[OF len, where A = A] by blast
  show ?thesis
    unfolding Iterate_in_def Let_def seg by (simp add: m'(1) v)
qed

lemma members_in_iff:
  "i \<in> set (members_in A ds cs j) \<longleftrightarrow> i < d_n_cols ds \<and> nearest_in A cs (d_col ds i) = j"
  by (auto simp: members_in_def)

lemma member_counts_sum:
  assumes "\<forall>i<d_n_cols ds. nearest_in A cs (d_col ds i) < d_n_cols cs"
  shows "(\<Sum>j\<leftarrow>[0..<d_n_cols cs]. length (members_in A ds cs j)) = d_n_cols ds"
  unfolding members_in_def
  using class_sizes_sum[of "[0..<d_n_cols ds]" "\<lambda>i. nearest_in A cs (d_col ds i)" "d_n_cols cs"]
    assms
  by simp

subsection \<open>Calls that return, in any arithmetic\<close>






subsection \<open>Exact arithmetic is an instance\<close>

lemma to_dmat_simps:
  "d_rows (to_dmat m) = n_rows m" "d_columns (to_dmat m) = columns m"
  "d_n_cols (to_dmat m) = n_cols m" "d_col (to_dmat m) j = col m j"
  "d_wf (to_dmat m) = wf_mat m"
  by (simp_all add: to_dmat_def d_n_cols_def n_cols_def d_col_def col_def d_wf_def wf_mat_def)

lemma real_arith_simps:
  "d_plus real_arith = (+)" "d_minus real_arith = (-)" "d_times real_arith = (*)"
  "d_div real_arith = (\<lambda>x n. x / real n)" "d_less real_arith = (<)"
  "d_zero real_arith = 0" "d_two real_arith = 2" "d_max real_arith = DBL_MAX"
  "d_dot real_arith = dotp" "d_norm real_arith = norm2"
  by (simp_all add: real_arith_def)

lemma for_loop_cong:
  assumes "\<And>s i. i \<in> set is \<Longrightarrow> f s i = g s i"
  shows "for_loop is f s = for_loop is g s"
  using assms by (induction "is" arbitrary: s) (auto split: sum.splits)

lemma for_loop_sim:
  assumes "\<And>s i. i \<in> set is \<Longrightarrow> f' (h s) i = map_sum id h (f s i)"
  shows "for_loop is f' (h s) = map_sum id h (for_loop is f s)"
  using assms by (induction "is" arbitrary: s) (auto split: sum.splits)

lemma computed_real: "computed real_arith (to_dmat cs) x j = decomposed cs x j"
  by (simp add: computed_def decomposed_def real_arith_simps to_dmat_simps)

lemma centroidNorms_in_real: "centroidNorms_in real_arith (to_dmat cs) = centroidNorms cs"
  by (simp add: centroidNorms_in_def centroidNorms_def real_arith_simps to_dmat_simps)

lemma closer_in_real:
  "closer_in real_arith (to_dmat cs) norms x dn s j = closer cs norms x dn s j"
  by (simp add: closer_in_def closer_def dot_in_def dot_def real_arith_simps to_dmat_simps)

lemma find_closest_in_real:
  "find_closest_in real_arith (to_dmat cs) norms x = find_closest cs norms x"
  by (simp add: find_closest_in_def find_closest_def closer_in_real[abs_def]
        real_arith_simps to_dmat_simps)

lemma nearest_in_real: "nearest_in real_arith (to_dmat cs) x = nearest cs x"
  unfolding nearest_in_def nearest_def find_closest_in_real centroidNorms_in_real
    to_dmat_simps ..

lemma members_in_real: "members_in real_arith (to_dmat ds) (to_dmat cs) j = members ds cs j"
  by (simp add: members_in_def members_def nearest_in_real to_dmat_simps)

lemma zeros_in_real: "zeros_in real_arith d k = to_dmat (zeros d k)"
  by (simp add: zeros_in_def zeros_def to_dmat_def real_arith_simps)

lemma add_to_col_in_real:
  "add_to_col_in real_arith (to_dmat m) j v = to_dmat (add_to_col m j v)"
  by (simp add: add_to_col_in_def add_to_col_def to_dmat_def real_arith_simps d_col_def col_def)

lemma mat_add_in_real:
  "mat_add_in real_arith (to_dmat a) (to_dmat b) = to_dmat (mat_add a b)"
  by (simp add: mat_add_in_def mat_add_def to_dmat_def real_arith_simps)

lemma assign_point_in_real:
  "assign_point_in real_arith (to_dmat ds) (to_dmat cs) norms (map_prod to_dmat id acc) i
     = map_sum id (map_prod to_dmat id) (assign_point ds cs norms acc i)"
  by (cases acc)
     (simp add: assign_point_in_def assign_point_def find_closest_in_real to_dmat_simps
        add_to_col_in_real Let_def split: sum.splits prod.splits)

lemma thread_local_in_real:
  "thread_local_in real_arith (to_dmat ds) (to_dmat cs) norms T seg t
     = map_sum id (map_prod to_dmat id) (thread_local ds cs norms T seg t)"
proof -
  have init: "(zeros_in real_arith (n_rows ds) (n_cols cs), replicate (n_cols cs) (0::nat))
                = map_prod to_dmat id (zeros (n_rows ds) (n_cols cs), replicate (n_cols cs) 0)"
    by (simp add: zeros_in_real)
  show ?thesis
    unfolding thread_local_in_def thread_local_def to_dmat_simps init
    by (rule for_loop_sim) (rule assign_point_in_real)
qed

lemma combine_in_real:
  "combine_in real_arith (map_prod to_dmat id s) (map_prod to_dmat id l)
     = map_prod to_dmat id (combine s l)"
  by (cases s, cases l) (simp add: combine_in_def combine_def mat_add_in_real)

lemma combine_in_real_pair:
  "combine_in real_arith (map_prod to_dmat id s) (to_dmat a, b)
     = map_prod to_dmat id (combine s (a, b))"
  using combine_in_real[of s "(a, b)"] by simp

lemma parallel_region_in_real:
  "parallel_region_in real_arith (to_dmat ds) (to_dmat cs) norms T seg order
     = map_sum id (map_prod to_dmat id) (parallel_region ds cs norms T seg order)"
proof -
  have init: "(zeros_in real_arith (n_rows ds) (n_cols cs), replicate (n_cols cs) (0::nat))
                = map_prod to_dmat id (zeros (n_rows ds) (n_cols cs), replicate (n_cols cs) 0)"
    by (simp add: zeros_in_real)
  show ?thesis
    unfolding parallel_region_in_def parallel_region_def to_dmat_simps init
    by (rule for_loop_sim)
       (simp add: thread_local_in_real combine_in_real_pair split: sum.splits)
qed

lemma normalize_col_in_real:
  "normalize_col_in real_arith cnts (to_dmat m) j = to_dmat (normalize_col cnts m j)"
  by (simp add: normalize_col_in_def normalize_col_def to_dmat_def real_arith_simps
        d_col_def col_def)

lemma normalize_in_real:
  "normalize_in real_arith K cnts (to_dmat m) = to_dmat (normalize K cnts m)"
proof -
  have "foldl (normalize_col_in real_arith cnts) (to_dmat m) js
          = to_dmat (foldl (normalize_col cnts) m js)" for js
    by (induction js arbitrary: m) (simp_all add: normalize_col_in_real)
  then show ?thesis by (simp add: normalize_in_def normalize_def)
qed

lemma distortion_in_real:
  "distortion_in real_arith (to_dmat cs) (to_dmat n) = distortion cs n"
  unfolding distortion_in_def distortion_def vsub_in_def vsub_def real_arith_simps
    to_dmat_simps ..

lemma Iterate_in_real:
  "Iterate_in real_arith t order (to_kmeans km) (to_dmat cs)
     = map_sum id to_result (Iterate t order km cs)"
proof -
  have ds: "d_dataset (to_kmeans km) = to_dmat (dataset km)"
    "d_distanceCalculations (to_kmeans km) = distanceCalculations km"
    by (simp_all add: to_kmeans_def)
  show ?thesis
    unfolding Iterate_in_def Iterate_def Let_def ds to_dmat_simps centroidNorms_in_real
      parallel_region_in_real
    by (auto simp: normalize_in_real distortion_in_real to_result_def to_kmeans_def
          split: sum.splits prod.splits)
qed

subsection \<open>A team smaller than requested\<close>

lemma assign_point_col_cong:
  "col ds' i = col ds i \<Longrightarrow> assign_point ds' cs norms s i = assign_point ds cs norms s i"
  by (simp add: assign_point_def)

lemma thread_local_short:
  assumes "n_rows ds' = n_rows ds" "n_cols ds' = seg" "seg < n_cols ds"
    and "\<forall>i<seg. col ds' i = col ds i"
  shows "thread_local ds cs norms 2 seg 0 = thread_local ds' cs norms 1 seg 0"
  unfolding thread_local_def segmentStart_def segmentEnd_def using assms
  by (auto intro!: for_loop_cong assign_point_col_cong[symmetric])

lemma parallel_region_short:
  assumes "n_rows ds' = n_rows ds" "n_cols ds' = seg" "seg < n_cols ds"
    and "\<forall>i<seg. col ds' i = col ds i"
  shows "parallel_region ds cs norms 2 seg [0] = parallel_region ds' cs norms 1 seg [0]"
  unfolding parallel_region_def for_loop.simps thread_local_short[OF assms] assms(1) ..

lemma Iterate_via_region:
  assumes "nominalSegmentSize t (n_cols (dataset km)) = Inr seg"
    and "parallel_region (dataset km) cs (centroidNorms cs)
           (effectiveThreads t (n_cols (dataset km))) seg order = Inr (summed, cnts)"
    and "distortion cs (normalize (n_cols cs) cnts summed) = Inr sh"
  shows "Iterate t order km cs =
           Inr \<lparr>newCentroids = normalize (n_cols cs) cnts summed, counts = cnts, cNorm = sh,
                object_after = km\<lparr>distanceCalculations :=
                  (distanceCalculations km + n_cols cs * n_cols (dataset km)) mod 2 ^ 64\<rparr>\<rparr>"
  unfolding Iterate_def Let_def assms(1) using assms(2,3) by simp

lemma region_full_single:
  assumes "wf_mat cs" "wf_mat ds" "n_rows cs = n_rows ds" "all_assigned ds cs"
  shows "parallel_region ds cs (centroidNorms cs) 1 (n_cols ds) [0]
           = Inr (\<lparr>n_rows = n_rows ds, columns = map (cluster_sum ds cs) [0..<n_cols cs]\<rparr>,
                  cluster_sizes ds cs)"
  using parallel_region_char[OF assms(1,2,3) _ valid_order_one] assms(4)
  by (simp add: all_assigned_iff cluster_sizes_def)

lemma normalized_sums:
  "normalize (n_cols cs) (cluster_sizes ds cs)
     \<lparr>n_rows = n_rows ds, columns = map (cluster_sum ds cs) [0..<n_cols cs]\<rparr>
   = new_centroids ds cs"
  unfolding cluster_sizes_def normalize_char new_centroids_def cluster_mean_def ..

lemma distortion_new_centroids:
  assumes "wf_mat cs" "n_rows cs = n_rows ds"
  shows "distortion cs (new_centroids ds cs) = Inr (total_shift cs (new_centroids ds cs))"
proof -
  have "\<forall>j<n_cols cs. length (col cs j) = length (col (new_centroids ds cs) j)"
    using assms by (simp add: col_new_centroids length_cluster_mean wf_mat_col)
  then show ?thesis by (rule distortion_char)
qed

text \<open>A team of one where two threads were requested: only the first segment is summed.\<close>

lemma Iterate_short_team:
  assumes "wf_mat cs" "wf_mat ds'" "n_rows cs = n_rows ds'" "all_assigned ds' cs"
    and "n_rows ds' = n_rows (dataset km)" "n_cols ds' = 100" "n_cols (dataset km) = 200"
    and "\<forall>i<100. col ds' i = col (dataset km) i"
  shows "Iterate 2 [0] km cs =
           Inr \<lparr>newCentroids = new_centroids ds' cs, counts = cluster_sizes ds' cs,
                cNorm = total_shift cs (new_centroids ds' cs),
                object_after = km\<lparr>distanceCalculations :=
                  (distanceCalculations km + n_cols cs * 200) mod 2 ^ 64\<rparr>\<rparr>"
proof -
  have seg: "nominalSegmentSize 2 (n_cols (dataset km)) = Inr 100"
    by (simp add: assms(7) nominalSegmentSize_def effectiveThreads_examples)
  have "parallel_region (dataset km) cs (centroidNorms cs) 2 100 [0]
          = parallel_region ds' cs (centroidNorms cs) 1 100 [0]"
    by (rule parallel_region_short) (simp_all add: assms)
  also have "\<dots> = Inr (\<lparr>n_rows = n_rows ds', columns = map (cluster_sum ds' cs) [0..<n_cols cs]\<rparr>,
                  cluster_sizes ds' cs)"
    using region_full_single[OF assms(1,2,3,4)] by (simp add: assms(6))
  finally have reg: "parallel_region (dataset km) cs (centroidNorms cs)
       (effectiveThreads 2 (n_cols (dataset km))) 100 [0]
     = Inr (\<lparr>n_rows = n_rows ds', columns = map (cluster_sum ds' cs) [0..<n_cols cs]\<rparr>,
                  cluster_sizes ds' cs)"
    by (simp add: assms(7) effectiveThreads_examples)
  have dist: "distortion cs (normalize (n_cols cs) (cluster_sizes ds' cs)
       \<lparr>n_rows = n_rows ds', columns = map (cluster_sum ds' cs) [0..<n_cols cs]\<rparr>)
     = Inr (total_shift cs (new_centroids ds' cs))"
    unfolding normalized_sums by (rule distortion_new_centroids[OF assms(1,3)])
  show ?thesis
    using Iterate_via_region[OF seg reg dist] by (simp add: normalized_sums assms(7))
qed

lemma col_tiled_prefix: "i < 100 \<Longrightarrow> col (tiled 25) i = col (tiled 50) i"
proof -
  assume i: "i < 100"
  have "concat (replicate 50 (columns scenario_data))
          = concat (replicate 25 (columns scenario_data)) @ concat (replicate 25 (columns scenario_data))"
    using replicate_add[of 25 25 "columns scenario_data"] by simp
  moreover have "length (concat (replicate 25 (columns scenario_data))) = 100"
    by (simp add: length_concat_replicate scenario_data_def)
  ultimately show ?thesis
    using i by (simp add: col_def tiled_def nth_append)
qed

lemma Iterate_tiled_short:
  "Iterate 2 [0] (tiled_kernel 50) scenario_centroids =
     Inr \<lparr>newCentroids = \<lparr>n_rows = 2, columns = [[0, 1 / 2], [5, 11 / 2]]\<rparr>,
          counts = [50, 50], cNorm = 1,
          object_after = (tiled_kernel 50)\<lparr>distanceCalculations := 400\<rparr>\<rparr>"
proof -
  have "Iterate 2 [0] (tiled_kernel 50) scenario_centroids =
           Inr \<lparr>newCentroids = new_centroids (tiled 25) scenario_centroids,
                counts = cluster_sizes (tiled 25) scenario_centroids,
                cNorm = total_shift scenario_centroids (new_centroids (tiled 25) scenario_centroids),
                object_after = (tiled_kernel 50)\<lparr>distanceCalculations :=
                  (distanceCalculations (tiled_kernel 50) + n_cols scenario_centroids * 200)
                    mod 2 ^ 64\<rparr>\<rparr>"
  proof (rule Iterate_short_team)
    show "wf_mat scenario_centroids" by (rule wf_scenario_centroids)
    show "wf_mat (tiled 25)" by (rule wf_tiled)
    show "n_rows scenario_centroids = n_rows (tiled 25)" by (rule n_rows_tiled)
    show "all_assigned (tiled 25) scenario_centroids" by (rule all_assigned_tiled)
    show "n_rows (tiled 25) = n_rows (dataset (tiled_kernel 50))"
      by (simp add: dataset_tiled_kernel n_rows_tiled_2)
    show "n_cols (tiled 25) = 100" by (simp add: n_cols_tiled)
    show "n_cols (dataset (tiled_kernel 50)) = 200"
      by (simp add: dataset_tiled_kernel n_cols_tiled)
    show "\<forall>i<100. col (tiled 25) i = col (dataset (tiled_kernel 50)) i"
      by (simp add: dataset_tiled_kernel col_tiled_prefix)
  qed
  then show ?thesis
    by (simp add: new_centroids_tiled cluster_sizes_tiled total_shift_scenario
          n_cols_scenario_centroids) (simp add: tiled_kernel_def)
qed

lemma Iterate_tiled_full:
  "Iterate 2 [1, 0] (tiled_kernel 50) scenario_centroids =
     Inr \<lparr>newCentroids = \<lparr>n_rows = 2, columns = [[0, 1 / 2], [5, 11 / 2]]\<rparr>,
          counts = [100, 100], cNorm = 1,
          object_after = (tiled_kernel 50)\<lparr>distanceCalculations := 400\<rparr>\<rparr>"
proof -
  have N: "n_cols (dataset (tiled_kernel 50)) = 200"
    by (simp add: dataset_tiled_kernel n_cols_tiled)
  have ord: "valid_order (effectiveThreads 2 (n_cols (dataset (tiled_kernel 50)))) [1, 0]"
    unfolding N effectiveThreads_examples by (rule valid_order_two)
  have wfd: "wf_mat (dataset (tiled_kernel 50))"
    by (simp add: dataset_tiled_kernel wf_tiled)
  have rows: "n_rows scenario_centroids = n_rows (dataset (tiled_kernel 50))"
    by (simp add: dataset_tiled_kernel n_rows_tiled)
  show ?thesis
    unfolding Iterate_char[OF wf_scenario_centroids wfd rows ord]
    by (simp add: dataset_tiled_kernel n_cols_tiled all_assigned_tiled n_cols_scenario_centroids
          new_centroids_tiled cluster_sizes_tiled total_shift_scenario)
       (simp add: tiled_kernel_def)
qed











subsection \<open>Further facts used by the claims\<close>

lemma real_less_order:
  "\<forall>a. \<not> d_less real_arith a a"
  "\<forall>a b c. d_less real_arith a b \<longrightarrow> d_less real_arith b c \<longrightarrow> d_less real_arith a c"
  by (auto simp: real_arith_simps)


lemma Iterate_far:
  "Iterate 1 [0] \<lparr>dataset = far_data, distanceCalculations = 0\<rparr> origin1
     = Inl IndexOutOfBounds"
proof -
  let ?km = "\<lparr>dataset = far_data, distanceCalculations = 0\<rparr>"
  have N: "n_cols far_data = 100" by (simp add: n_cols_def far_data_def)
  have wf: "wf_mat origin1" by (simp add: wf_mat_def origin1_def)
  have wfd: "wf_mat (dataset ?km)"
    by (simp add: wf_mat_def far_data_def far_point_def list_all_iff)
  have rows: "n_rows origin1 = n_rows (dataset ?km)" by (simp add: origin1_def far_data_def)
  have ord: "valid_order (effectiveThreads 1 (n_cols (dataset ?km))) [0]"
    using valid_order_one by (simp add: N effectiveThreads_examples)
  show ?thesis
    unfolding Iterate_char[OF wf wfd rows ord] using not_all_assigned_far by (simp add: N)
qed

lemma to_kmeans_simps:
  "d_dataset (to_kmeans km) = to_dmat (dataset km)"
  "d_distanceCalculations (to_kmeans km) = distanceCalculations km"
  by (simp_all add: to_kmeans_def)




section \<open>The claims\<close>

text \<open>
  Claim C1: for every dataset size and every reported maximum thread count of at least
  one, the effective thread count chosen by the partitioner is at least one.
  The code takes the minimum of the thread count and \<open>points div 100\<close> and does not
  clamp the result: with four hardware threads and fifty points the effective thread
  count is zero, the nominal segment size divides by it, and the call fails.
\<close>

theorem effectiveThreads_not_clamped:
  "effectiveThreads 4 50 = 0 \<and> nominalSegmentSize 4 50 = Inl DivisionByZero \<and>
   Iterate 4 [] \<lparr>dataset = \<lparr>n_rows = 1, columns = replicate 50 [1]\<rparr>, distanceCalculations = 0\<rparr>
     \<lparr>n_rows = 1, columns = [[1]]\<rparr> = Inl DivisionByZero"
  by (simp add: Iterate_def nominalSegmentSize_def effectiveThreads_def minVectorsPerThread_def
        n_cols_def)

text \<open>
  Claim C2: for a point processed with at least one centroid, the cluster index assigned
  minimizes the squared Euclidean distance over all centroids, each distance being
  computed as \<open>||x||^2 + ||c_j||^2 - 2 (x . c_j)\<close> from the point's norm, computed once,
  and the cached centroid norms.
  As amended: if the value that line 84 computes for at least one centroid compares below
  \<open>DBL_MAX\<close>, the initial value of \<open>minDistance\<close>, then the index assigned is a
  centroid index, the minimum tracked is the value computed for that centroid, and the
  value computed for no centroid compares below it. The values are those of the
  decomposition in the arithmetic of the machine, whatever it rounds to: they need not be
  the exact squared distances, and the centroid assigned need not be the nearest one in
  exact arithmetic. The theorem holds in every arithmetic whose comparison is irreflexive
  and transitive, as the comparison of doubles is.
\<close>

theorem search_minimizes_computed:
  assumes "\<forall>a. \<not> d_less A a a"
    and "\<forall>a b c. d_less A a b \<longrightarrow> d_less A b c \<longrightarrow> d_less A a c"
    and "d_wf cs" "length x = d_rows cs"
    and "\<exists>j<d_n_cols cs. d_less A (computed A cs x j) (d_max A)"
  shows "\<exists>c<d_n_cols cs.
           find_closest_in A cs (centroidNorms_in A cs) x = Inr (computed A cs x c, c) \<and>
           d_less A (computed A cs x c) (d_max A) \<and>
           (\<forall>j<d_n_cols cs. \<not> d_less A (computed A cs x j) (computed A cs x c))"
  using find_closest_in_tracked[OF assms(3,4,1,2,5)] by blast

text \<open>The hypotheses hold in exact arithmetic for the point \<open>(0, 1)\<close> and the centroids
  \<open>(0, 0), (5, 5)\<close>.\<close>

theorem search_minimizes_computed_witness:
  "\<exists>c<d_n_cols (to_dmat scenario_centroids).
     find_closest_in real_arith (to_dmat scenario_centroids)
       (centroidNorms_in real_arith (to_dmat scenario_centroids)) [0, 1]
       = Inr (computed real_arith (to_dmat scenario_centroids) [0, 1] c, c) \<and>
     d_less real_arith (computed real_arith (to_dmat scenario_centroids) [0, 1] c)
       (d_max real_arith) \<and>
     (\<forall>j<d_n_cols (to_dmat scenario_centroids).
        \<not> d_less real_arith (computed real_arith (to_dmat scenario_centroids) [0, 1] j)
             (computed real_arith (to_dmat scenario_centroids) [0, 1] c))"
proof -
  have wf: "d_wf (to_dmat scenario_centroids)"
    by (simp add: to_dmat_simps wf_scenario_centroids)
  have len: "length [0, 1 :: real] = d_rows (to_dmat scenario_centroids)"
    by (simp add: to_dmat_simps scenario_centroids_def)
  have range: "\<exists>j<d_n_cols (to_dmat scenario_centroids).
      d_less real_arith (computed real_arith (to_dmat scenario_centroids) [0, 1] j)
        (d_max real_arith)"
    using in_range_scenario by (simp add: to_dmat_simps real_arith_simps computed_real)
  show ?thesis
    by (rule search_minimizes_computed[OF real_less_order wf len range])
qed

text \<open>
  As stated the claim fails: the one-dimensional point \<open>2^512\<close> is finite, but the value
  computed for the single centroid \<open>0\<close> is \<open>2^1024\<close>, which is not below \<open>DBL_MAX\<close>
  (in double arithmetic the norm overflows to infinity, which is not below it either). The
  comparison never succeeds, \<open>closestCluster\<close> keeps the sentinel value \<open>clusters = 1\<close>,
  which is no centroid index, and the accumulation step indexes out of range.
\<close>

theorem search_minimizes_computed_counterexample:
  "d_n_cols (to_dmat origin1) = 1 \<and>
   find_closest_in real_arith (to_dmat origin1)
     (centroidNorms_in real_arith (to_dmat origin1)) far_point = Inr (DBL_MAX, 1) \<and>
   assign_point_in real_arith (to_dmat far_data) (to_dmat origin1)
     (centroidNorms_in real_arith (to_dmat origin1)) (zeros_in real_arith 1 1, [0]) 0
     = Inl IndexOutOfBounds"
proof (intro conjI)
  show "d_n_cols (to_dmat origin1) = 1" by (simp add: to_dmat_simps n_cols_origin1)
  show "find_closest_in real_arith (to_dmat origin1)
     (centroidNorms_in real_arith (to_dmat origin1)) far_point = Inr (DBL_MAX, 1)"
    unfolding find_closest_in_real centroidNorms_in_real by (rule find_closest_far1)
  have "assign_point_in real_arith (to_dmat far_data) (to_dmat origin1)
     (centroidNorms origin1) (map_prod to_dmat id (zeros 1 1, [0])) 0
     = map_sum id (map_prod to_dmat id)
         (assign_point far_data origin1 (centroidNorms origin1) (zeros 1 1, [0]) 0)"
    by (rule assign_point_in_real)
  then show "assign_point_in real_arith (to_dmat far_data) (to_dmat origin1)
     (centroidNorms_in real_arith (to_dmat origin1)) (zeros_in real_arith 1 1, [0]) 0
     = Inl IndexOutOfBounds"
    unfolding centroidNorms_in_real assign_point_far1 by (simp add: zeros_in_real)
qed

text \<open>
  Claim C3: for every input with at least one point and one centroid the entries of the
  returned counts sum to the number of points; every point is assigned to exactly one
  cluster and counted once.
  As amended: if the partitioner resolves at least one thread, the runtime grants the
  parallel region the whole team it requests (\<open>order\<close> names each of the
  \<open>effectiveThreads\<close> threads once), and for every point the value that line 84 computes
  for at least one centroid compares below \<open>DBL_MAX\<close>, then the call returns, the counts
  have one entry per cluster and sum to the number of points, entry \<open>j\<close> is the number
  of points to which the search gives the index \<open>j\<close>, and every point is counted in
  exactly one cluster. The theorem holds in every arithmetic. Nothing is said about inputs
  for which the partitioner resolves no thread, nor about a run that is granted a smaller
  team than it requested.
\<close>

theorem counts_sum_when_in_range:
  assumes "d_wf cs" "d_wf (d_dataset km)" "d_rows cs = d_rows (d_dataset km)"
    and "valid_order (effectiveThreads t (d_n_cols (d_dataset km))) order"
    and "0 < effectiveThreads t (d_n_cols (d_dataset km))"
    and "\<forall>i<d_n_cols (d_dataset km). \<exists>j<d_n_cols cs.
           d_less A (computed A cs (d_col (d_dataset km) i) j) (d_max A)"
  shows "\<exists>r. Iterate_in A t order km cs = Inr r \<and>
             length (d_counts r) = d_n_cols cs \<and>
             sum_list (d_counts r) = d_n_cols (d_dataset km) \<and>
             (\<forall>j<d_n_cols cs. d_counts r ! j = length (members_in A (d_dataset km) cs j)) \<and>
             (\<forall>i<d_n_cols (d_dataset km).
                \<exists>!j. j < d_n_cols cs \<and> i \<in> set (members_in A (d_dataset km) cs j))"
proof -
  let ?ds = "d_dataset km"
  have near: "\<forall>i<d_n_cols ?ds. nearest_in A cs (d_col ?ds i) < d_n_cols cs"
  proof (intro allI impI)
    fix i assume i: "i < d_n_cols ?ds"
    have "length (d_col ?ds i) = d_rows cs"
      using d_wf_col[OF assms(2) i] assms(3) by simp
    from nearest_in_lt_iff[OF assms(1) this] assms(6) i
    show "nearest_in A cs (d_col ?ds i) < d_n_cols cs" by blast
  qed
  obtain r where r: "Iterate_in A t order km cs = Inr r"
    "d_counts r = map (\<lambda>j. length (members_in A ?ds cs j)) [0..<d_n_cols cs]"
    using Iterate_in_counts[OF assms(1,2,3,4,5) near] by blast
  have s: "sum_list (d_counts r) = d_n_cols ?ds"
    unfolding r(2) by (rule member_counts_sum[OF near])
  have u: "\<forall>i<d_n_cols ?ds. \<exists>!j. j < d_n_cols cs \<and> i \<in> set (members_in A ?ds cs j)"
    using near by (auto simp: members_in_iff)
  show ?thesis using r s u by simp
qed

text \<open>The hypotheses hold in exact arithmetic for the scenario of C8 repeated 25 times (a
  hundred points) with one thread.\<close>

theorem counts_sum_when_in_range_witness:
  "d_n_cols (d_dataset (to_kmeans (tiled_kernel 25))) = 100 \<and>
   (\<exists>r. Iterate_in real_arith 1 [0] (to_kmeans (tiled_kernel 25)) (to_dmat scenario_centroids)
           = Inr r \<and>
        length (d_counts r) = d_n_cols (to_dmat scenario_centroids) \<and>
        sum_list (d_counts r) = d_n_cols (d_dataset (to_kmeans (tiled_kernel 25))) \<and>
        (\<forall>j<d_n_cols (to_dmat scenario_centroids).
           d_counts r ! j = length (members_in real_arith
             (d_dataset (to_kmeans (tiled_kernel 25))) (to_dmat scenario_centroids) j)) \<and>
        (\<forall>i<d_n_cols (d_dataset (to_kmeans (tiled_kernel 25))).
           \<exists>!j. j < d_n_cols (to_dmat scenario_centroids) \<and>
                i \<in> set (members_in real_arith
                  (d_dataset (to_kmeans (tiled_kernel 25))) (to_dmat scenario_centroids) j)))"
proof
  let ?km = "to_kmeans (tiled_kernel 25)"
  let ?cs = "to_dmat scenario_centroids"
  show N: "d_n_cols (d_dataset ?km) = 100"
    by (simp add: to_kmeans_simps to_dmat_simps dataset_tiled_kernel n_cols_tiled)
  have wf: "d_wf ?cs" by (simp add: to_dmat_simps wf_scenario_centroids)
  have wfd: "d_wf (d_dataset ?km)"
    by (simp add: to_kmeans_simps to_dmat_simps dataset_tiled_kernel wf_tiled)
  have rows: "d_rows ?cs = d_rows (d_dataset ?km)"
    using n_rows_tiled[of 25] by (simp add: to_kmeans_simps to_dmat_simps dataset_tiled_kernel)
  have full: "valid_order (effectiveThreads 1 (d_n_cols (d_dataset ?km))) [0]"
    unfolding N effectiveThreads_examples by (rule valid_order_one)
  have pos: "0 < effectiveThreads 1 (d_n_cols (d_dataset ?km))"
    unfolding N effectiveThreads_examples by simp
  have range: "\<forall>i<d_n_cols (d_dataset ?km). \<exists>j<d_n_cols ?cs.
      d_less real_arith (computed real_arith ?cs (d_col (d_dataset ?km) i) j) (d_max real_arith)"
    using in_range_tiled[of 25]
    by (simp add: to_kmeans_simps to_dmat_simps computed_real real_arith_simps)
  show "\<exists>r. Iterate_in real_arith 1 [0] ?km ?cs = Inr r \<and>
        length (d_counts r) = d_n_cols ?cs \<and>
        sum_list (d_counts r) = d_n_cols (d_dataset ?km) \<and>
        (\<forall>j<d_n_cols ?cs.
           d_counts r ! j = length (members_in real_arith (d_dataset ?km) ?cs j)) \<and>
        (\<forall>i<d_n_cols (d_dataset ?km).
           \<exists>!j. j < d_n_cols ?cs \<and> i \<in> set (members_in real_arith (d_dataset ?km) ?cs j))"
    by (rule counts_sum_when_in_range[OF wf wfd rows full pos range])
qed

text \<open>
  As stated the claim fails on a hundred copies of the point \<open>2^512\<close> with the single
  centroid \<open>0\<close>: no computed value compares below \<open>DBL_MAX\<close>, no point is assigned
  and the call fails at the column access instead of returning counts.
\<close>

theorem counts_sum_when_in_range_counterexample:
  "d_n_cols (to_dmat far_data) = 100 \<and> d_n_cols (to_dmat origin1) = 1 \<and>
   Iterate_in real_arith 1 [0] (to_kmeans \<lparr>dataset = far_data, distanceCalculations = 0\<rparr>)
     (to_dmat origin1) = Inl IndexOutOfBounds"
proof (intro conjI)
  show "d_n_cols (to_dmat far_data) = 100"
    by (simp add: to_dmat_simps n_cols_def far_data_def)
  show "d_n_cols (to_dmat origin1) = 1" by (simp add: to_dmat_simps n_cols_origin1)
  show "Iterate_in real_arith 1 [0] (to_kmeans \<lparr>dataset = far_data, distanceCalculations = 0\<rparr>)
     (to_dmat origin1) = Inl IndexOutOfBounds"
    unfolding Iterate_in_real Iterate_far by simp
qed

text \<open>
  Claim C4: a point equidistant from several minimal-distance centroids is assigned the
  lowest-indexed one, because the minimum is tracked with a strict comparison.
  As amended: the tie is one of the values that line 84 computes, not of the exact
  distances. If the value computed for at least one centroid compares below \<open>DBL_MAX\<close>,
  the index assigned is a centroid index \<open>c\<close> such that the value computed for no
  centroid compares below the value computed for \<open>c\<close>, no centroid with the same
  computed value has a lower index, and every centroid of lower index was passed over by
  the strict comparison: some value above the one of \<open>c\<close> is not above its own. The
  search takes no thread parameter. The theorem holds in every arithmetic whose comparison
  is irreflexive and transitive.
\<close>

theorem search_ties_lowest_index:
  assumes "\<forall>a. \<not> d_less A a a"
    and "\<forall>a b c. d_less A a b \<longrightarrow> d_less A b c \<longrightarrow> d_less A a c"
    and "d_wf cs" "length x = d_rows cs"
    and "\<exists>j<d_n_cols cs. d_less A (computed A cs x j) (d_max A)"
  shows "\<exists>c<d_n_cols cs.
           find_closest_in A cs (centroidNorms_in A cs) x = Inr (computed A cs x c, c) \<and>
           (\<forall>j<d_n_cols cs. \<not> d_less A (computed A cs x j) (computed A cs x c)) \<and>
           (\<forall>j<d_n_cols cs. computed A cs x j = computed A cs x c \<longrightarrow> c \<le> j) \<and>
           (\<forall>j<c. \<exists>v. d_less A (computed A cs x c) v \<and> \<not> d_less A (computed A cs x j) v)"
proof -
  obtain c where c: "c < d_n_cols cs"
    "find_closest_in A cs (centroidNorms_in A cs) x = Inr (computed A cs x c, c)"
    "\<forall>j<d_n_cols cs. \<not> d_less A (computed A cs x j) (computed A cs x c)"
    "\<forall>j<c. \<exists>v. d_less A (computed A cs x c) v \<and> \<not> d_less A (computed A cs x j) v"
    using find_closest_in_tracked[OF assms(3,4,1,2,5)] by blast
  have "\<forall>j<d_n_cols cs. computed A cs x j = computed A cs x c \<longrightarrow> c \<le> j"
    using c(4) by (metis not_le)
  with c show ?thesis by blast
qed

text \<open>In exact arithmetic the value computed for the point \<open>3\<close> is \<open>9\<close> for both
  centroids of \<open>origin2\<close>; index \<open>0\<close> wins.\<close>

theorem search_ties_lowest_index_witness:
  "computed real_arith (to_dmat origin2) [3] 0 = computed real_arith (to_dmat origin2) [3] 1 \<and>
   find_closest_in real_arith (to_dmat origin2)
     (centroidNorms_in real_arith (to_dmat origin2)) [3]
     = Inr (computed real_arith (to_dmat origin2) [3] 0, 0)"
proof -
  let ?cs = "to_dmat origin2"
  have wf: "d_wf ?cs" by (simp add: to_dmat_simps wf_mat_def origin2_def)
  have len: "length [3 :: real] = d_rows ?cs" by (simp add: to_dmat_simps origin2_def)
  have K: "d_n_cols ?cs = 2" by (simp add: to_dmat_simps n_cols_origin2)
  have d: "computed real_arith ?cs [3] 0 = 9" "computed real_arith ?cs [3] 1 = 9"
    by (simp_all add: computed_real decomposed_def origin2_def col_def dotp_def)
  have "d_less real_arith (computed real_arith ?cs [3] 0) (d_max real_arith)"
    using DBL_MAX_gt_100 by (simp add: d real_arith_simps)
  then have range: "\<exists>j<d_n_cols ?cs. d_less real_arith (computed real_arith ?cs [3] j)
                      (d_max real_arith)"
    unfolding K by (intro exI[of _ 0]) simp
  obtain c where c: "c < d_n_cols ?cs"
    "find_closest_in real_arith ?cs (centroidNorms_in real_arith ?cs) [3]
       = Inr (computed real_arith ?cs [3] c, c)"
    "\<forall>j<d_n_cols ?cs. computed real_arith ?cs [3] j = computed real_arith ?cs [3] c \<longrightarrow> c \<le> j"
    using search_ties_lowest_index[OF real_less_order wf len range] by blast
  have "c = 0 \<or> c = 1" using c(1) unfolding K by auto
  then have "computed real_arith ?cs [3] 0 = computed real_arith ?cs [3] c" using d by auto
  then have "c = 0" using c(3)[unfolded K, rule_format, of 0] by simp
  with c(2) d show ?thesis by simp
qed

text \<open>
  As stated the claim fails: the point \<open>2^512\<close> is equidistant from the two centroids of
  \<open>origin2\<close>, both minimal, yet neither is assigned: \<open>closestCluster\<close> keeps the
  sentinel value \<open>2\<close> and the accumulation step indexes out of range.
\<close>

theorem search_ties_lowest_index_counterexample:
  "d_n_cols (to_dmat origin2) = 2 \<and>
   computed real_arith (to_dmat origin2) far_point 0
     = computed real_arith (to_dmat origin2) far_point 1 \<and>
   find_closest_in real_arith (to_dmat origin2)
     (centroidNorms_in real_arith (to_dmat origin2)) far_point = Inr (DBL_MAX, 2) \<and>
   assign_point_in real_arith (to_dmat far_data) (to_dmat origin2)
     (centroidNorms_in real_arith (to_dmat origin2)) (zeros_in real_arith 1 2, [0, 0]) 0
     = Inl IndexOutOfBounds"
proof (intro conjI)
  show "d_n_cols (to_dmat origin2) = 2" by (simp add: to_dmat_simps n_cols_origin2)
  show "computed real_arith (to_dmat origin2) far_point 0
     = computed real_arith (to_dmat origin2) far_point 1"
    unfolding computed_real by (rule equidistant_far)
  show "find_closest_in real_arith (to_dmat origin2)
     (centroidNorms_in real_arith (to_dmat origin2)) far_point = Inr (DBL_MAX, 2)"
    unfolding find_closest_in_real centroidNorms_in_real by (rule find_closest_far2)
  have "assign_point_in real_arith (to_dmat far_data) (to_dmat origin2)
     (centroidNorms origin2) (map_prod to_dmat id (zeros 1 2, [0, 0])) 0
     = map_sum id (map_prod to_dmat id)
         (assign_point far_data origin2 (centroidNorms origin2) (zeros 1 2, [0, 0]) 0)"
    by (rule assign_point_in_real)
  then show "assign_point_in real_arith (to_dmat far_data) (to_dmat origin2)
     (centroidNorms_in real_arith (to_dmat origin2)) (zeros_in real_arith 1 2, [0, 0]) 0
     = Inl IndexOutOfBounds"
    unfolding centroidNorms_in_real assign_point_far2 by (simp add: zeros_in_real)
qed

text \<open>
  Claim C5: the scalar returned by Iterate is the sum over all clusters of the Euclidean
  norm of the difference between the input centroid column and the finalized new
  centroid column. It holds of every call that returns.
\<close>

theorem Iterate_returns_total_shift:
  assumes "Iterate t order km cs = Inr r"
  shows "cNorm r = (\<Sum>j\<leftarrow>[0..<n_cols cs]. sqrt (sq_euclid (col cs j) (col (newCentroids r) j)))"
  using Iterate_Inr_cNorm[OF assms] by (simp add: total_shift_def norm2_diff)

text \<open>On the scenario of C8 repeated 25 times the call returns the centroids
  \<open>(0, 0.5), (5, 5.5)\<close>, the counts \<open>[50, 50]\<close> and the shift \<open>1\<close>.\<close>

theorem Iterate_returns_total_shift_witness:
  "Iterate 1 [0] (tiled_kernel 25) scenario_centroids =
     Inr \<lparr>newCentroids = \<lparr>n_rows = 2, columns = [[0, 1 / 2], [5, 11 / 2]]\<rparr>,
          counts = [50, 50], cNorm = 1,
          object_after = (tiled_kernel 25)\<lparr>distanceCalculations := 200\<rparr>\<rparr> \<and>
   cNorm \<lparr>newCentroids = \<lparr>n_rows = 2, columns = [[0, 1 / 2], [5, 11 / 2]]\<rparr>,
          counts = [50, 50], cNorm = 1,
          object_after = (tiled_kernel 25)\<lparr>distanceCalculations := 200\<rparr>\<rparr>
     = (\<Sum>j\<leftarrow>[0..<n_cols scenario_centroids].
          sqrt (sq_euclid (col scenario_centroids j)
            (col (newCentroids
               \<lparr>newCentroids = \<lparr>n_rows = 2, columns = [[0, 1 / 2], [5, 11 / 2]]\<rparr>,
                counts = [50, 50], cNorm = 1,
                object_after = (tiled_kernel 25)\<lparr>distanceCalculations := 200\<rparr>\<rparr>) j)))"
  by (rule conjI[OF Iterate_tiled_values Iterate_returns_total_shift[OF Iterate_tiled_values]])



text \<open>
  Claim C7: a call with no points or no clusters is a safe no-op with empty outputs.
  With no points the effective thread count is zero and the call fails at the division;
  with no clusters and a hundred points the sentinel \<open>closestCluster = clusters\<close>
  is used as a column index of a matrix without columns.
\<close>

theorem empty_inputs_fail:
  "Iterate 4 [] \<lparr>dataset = \<lparr>n_rows = 2, columns = []\<rparr>, distanceCalculations = 0\<rparr>
     scenario_centroids = Inl DivisionByZero \<and>
   Iterate 1 [0] (tiled_kernel 25) \<lparr>n_rows = 2, columns = []\<rparr> = Inl IndexOutOfBounds"
proof
  show "Iterate 4 [] \<lparr>dataset = \<lparr>n_rows = 2, columns = []\<rparr>, distanceCalculations = 0\<rparr>
     scenario_centroids = Inl DivisionByZero"
    by (simp add: Iterate_def nominalSegmentSize_def effectiveThreads_def minVectorsPerThread_def
        n_cols_def)
next
  let ?cs = "\<lparr>n_rows = 2, columns = []\<rparr>"
  have wf: "wf_mat ?cs" by (simp add: wf_mat_def)
  have wfd: "wf_mat (dataset (tiled_kernel 25))" by (simp add: tiled_kernel_def wf_tiled)
  have rows: "n_rows ?cs = n_rows (dataset (tiled_kernel 25))"
    by (simp add: tiled_kernel_def tiled_def)
  have N: "n_cols (dataset (tiled_kernel 25)) = 100"
    by (simp add: tiled_kernel_def n_cols_tiled)
  have ord: "valid_order (effectiveThreads 1 (n_cols (dataset (tiled_kernel 25)))) [0]"
    unfolding N effectiveThreads_examples by (rule valid_order_one)
  have "\<not> all_assigned (dataset (tiled_kernel 25)) ?cs"
  proof (rule not_all_assigned_no_clusters)
    show "0 < n_cols (dataset (tiled_kernel 25))" by (simp add: N)
    show "n_cols ?cs = 0" by (simp add: n_cols_def)
  qed
  then show "Iterate 1 [0] (tiled_kernel 25) ?cs = Inl IndexOutOfBounds"
    by (simp add: Iterate_char[OF wf wfd rows ord] N)
qed

text \<open>
  Claim C8: on the dataset \<open>(0,0), (0,1), (5,5), (5,6)\<close> with centroids
  \<open>(0,0), (5,5)\<close> one call yields the centroids \<open>(0, 0.5), (5, 5.5)\<close>, the counts
  \<open>[2, 2]\<close> and the shift \<open>1.0\<close>. With four points the effective thread count is
  zero whatever the hardware reports, so the call fails at the division that computes
  the nominal segment size. The values of the claim are what the rest of the code
  computes when one thread is given the segment of all four points: the parallel
  region sums to \<open>(0, 1), (10, 11)\<close> with counts \<open>[2, 2]\<close>, the normalizer yields
  \<open>(0, 0.5), (5, 5.5)\<close> and the shift evaluator \<open>1\<close>.
\<close>

theorem scenario_divides_by_zero:
  "Iterate omp_max_threads order \<lparr>dataset = scenario_data, distanceCalculations = 0\<rparr>
     scenario_centroids = Inl DivisionByZero \<and>
   parallel_region scenario_data scenario_centroids (centroidNorms scenario_centroids) 1 4 [0]
     = Inr (\<lparr>n_rows = 2, columns = [[0, 1], [10, 11]]\<rparr>, [2, 2]) \<and>
   normalize 2 [2, 2] \<lparr>n_rows = 2, columns = [[0, 1], [10, 11]]\<rparr>
     = \<lparr>n_rows = 2, columns = [[0, 1 / 2], [5, 11 / 2]]\<rparr> \<and>
   distortion scenario_centroids \<lparr>n_rows = 2, columns = [[0, 1 / 2], [5, 11 / 2]]\<rparr> = Inr 1"
proof -
  have "Iterate omp_max_threads order \<lparr>dataset = scenario_data, distanceCalculations = 0\<rparr>
     scenario_centroids = Inl DivisionByZero"
    by (simp add: Iterate_def nominalSegmentSize_def effectiveThreads_def minVectorsPerThread_def
        n_cols_def scenario_data_def)
  then show ?thesis
    by (intro conjI parallel_region_scenario normalize_scenario distortion_scenario)
qed




text \<open>
  Claim C10: for a fixed input with at least one centroid and at least a hundred points,
  any two runs produce the same counts vector, whatever their effective thread counts and
  merge orders, because each count is a sum of per-thread counts over a partition of the
  points.
  The segments are computed from the thread count the region requests (lines 57 and 64
  to 66), and the code never asks how many threads the region was given; the request is
  an upper bound on the team. With the scenario of C8 repeated 50 times (two hundred
  points) and two hardware threads the region requests two threads. When the runtime
  grants one, thread 0 visits the points 0 to 99, nobody visits the points 100 to 199,
  and the call returns the counts \<open>[50, 50]\<close>: the segments visited do not cover the
  points. When it grants both, the counts are \<open>[100, 100]\<close>. Every value computed on
  this input is an integer or a half below a hundred, which doubles represent exactly.
\<close>

theorem counts_depend_on_granted_team:
  "n_cols (dataset (tiled_kernel 50)) = 200 \<and>
   effectiveThreads 2 (n_cols (dataset (tiled_kernel 50))) = 2 \<and>
   Iterate 2 [0] (tiled_kernel 50) scenario_centroids =
     Inr \<lparr>newCentroids = \<lparr>n_rows = 2, columns = [[0, 1 / 2], [5, 11 / 2]]\<rparr>,
          counts = [50, 50], cNorm = 1,
          object_after = (tiled_kernel 50)\<lparr>distanceCalculations := 400\<rparr>\<rparr> \<and>
   Iterate 2 [1, 0] (tiled_kernel 50) scenario_centroids =
     Inr \<lparr>newCentroids = \<lparr>n_rows = 2, columns = [[0, 1 / 2], [5, 11 / 2]]\<rparr>,
          counts = [100, 100], cNorm = 1,
          object_after = (tiled_kernel 50)\<lparr>distanceCalculations := 400\<rparr>\<rparr>"
proof (intro conjI)
  show N: "n_cols (dataset (tiled_kernel 50)) = 200"
    by (simp add: dataset_tiled_kernel n_cols_tiled)
  show "effectiveThreads 2 (n_cols (dataset (tiled_kernel 50))) = 2"
    unfolding N by (rule effectiveThreads_examples)
  show "Iterate 2 [0] (tiled_kernel 50) scenario_centroids =
     Inr \<lparr>newCentroids = \<lparr>n_rows = 2, columns = [[0, 1 / 2], [5, 11 / 2]]\<rparr>,
          counts = [50, 50], cNorm = 1,
          object_after = (tiled_kernel 50)\<lparr>distanceCalculations := 400\<rparr>\<rparr>"
    by (rule Iterate_tiled_short)
  show "Iterate 2 [1, 0] (tiled_kernel 50) scenario_centroids =
     Inr \<lparr>newCentroids = \<lparr>n_rows = 2, columns = [[0, 1 / 2], [5, 11 / 2]]\<rparr>,
          counts = [100, 100], cNorm = 1,
          object_after = (tiled_kernel 50)\<lparr>distanceCalculations := 400\<rparr>\<rparr>"
    by (rule Iterate_tiled_full)
qed

end
